theory Spec2Isabelle
  imports Main
begin

section \<open>Data model of static/js/app.js\<close>

text \<open>
  The script keeps its state in module-level variables and in the document. The model
  is a record of the variables the script reads back, of the document properties it
  reads or that decide which input arrives (the \<open>disabled\<close> property of the buttons,
  the \<open>is-hidden\<close> class of the two containers, the \<open>launching\<close> class of the
  rocket, the \<open>src\<close> of the word-cloud image), and of the environment the script
  talks to (timers, issued requests, alerts, local storage).

  CSS classes and text nodes that the script only writes (selected/disabled styling of
  grid buttons, fading classes, rendered translations) are not part of the state, and
  neither are the timers whose callbacks only touch such classes. So
  \<open>updateRocketBlocks\<close>, \<open>applyTranslations\<close> and \<open>updateLanguageButtonStates\<close>, which
  only render, have no counterpart here. The document is taken to hold the elements the
  script looks up (rocket, containers, image, back button); the launch button may be
  missing, as the script allows.
\<close>

record grid_button =
  button_id :: nat
  dataset_key :: string

text \<open>An element of \<open>selectedItems\<close>: \<open>{gridButton, rocketIndex, key}\<close>.\<close>

record item =
  gridButton :: grid_button
  rocketIndex :: nat
  key :: string

text \<open>
  A \<open>fetch\<close> resolves with \<open>response.ok\<close>, resolves with a response that is not ok,
  or rejects.
\<close>

datatype outcome = Ok | NotOk | NetworkError

datatype request =
    PreviewWordcloud "string list" string
  | SubmitVote "string list"
  | CommitWordcloud
  | GetTranslations string

text \<open>
  Callbacks given to \<open>setTimeout\<close>: \<open>returnToSelection\<close> (the auto-return), the second
  step of \<open>returnToSelection\<close> after the fade, and the fallback of
  \<open>playRocketLaunchAnimation\<close>.
\<close>

datatype timer_action = AutoReturn | FadeOutDone | LaunchFallback

text \<open>The promise returned by \<open>precomputeWordcloud\<close>; pending on a request id.\<close>

datatype promise = Pending nat | Fulfilled | Rejected

text \<open>
  \<open>handleLaunchButtonClick\<close> is an async function. Its continuation is the await it is
  suspended at, with the local variables still live there: \<open>selectedKeys\<close>, the id of
  the fallback timer, \<open>precomputePromise\<close>, and the id of the request awaited. The
  state holds one continuation: the function is only called from the click listener of
  the launch button, which checks that the button is enabled, and the button is disabled
  from the call until the continuation ends (lemma \<open>transitioning\<close> below).
\<close>

datatype launch_pc =
    NotRunning
  | AwaitAnimation "string list" nat promise
  | AwaitVote nat promise
  | AwaitPrecompute nat
  | AwaitCommit nat
  | AwaitImage

record app_state =
  translationsCache :: "string list"
  currentTranslations :: "string option"
  selectedItems :: "item list"
  currentLanguage :: string
  wordcloudReturnTimer :: "nat option"
  isWordcloudVisible :: bool
  pathname :: string
  documentLang :: "string option"
  launchButton :: "bool option"
  gridDisabled :: bool
  rocketDisabled :: bool
  selectionHidden :: bool
  wordcloudHidden :: bool
  rocketLaunching :: bool
  wordcloudImageSrc :: "string option"
  localStorage :: "string option"
  timers :: "(nat \<times> timer_action) list"
  nextTimer :: nat
  requests :: "(nat \<times> request) list"
  nextRequest :: nat
  awaitingTranslations :: "(nat \<times> string) list"
  alerts :: "string list"
  unloaded :: bool
  launch :: launch_pc

text \<open>
  \<open>launchButton\<close> is \<open>None\<close> when the document has no \<open>.launch-button\<close>, otherwise
  its \<open>disabled\<close> property. \<open>gridDisabled\<close> and \<open>rocketDisabled\<close> are the \<open>disabled\<close>
  property of the \<open>.purple-block\<close> and \<open>.rocket-button\<close> elements, which the script
  only ever sets for all of them at once. Translation tables are identified by their
  language. \<open>awaitingTranslations\<close> holds the suspended calls of \<open>setLanguage\<close>: the
  request each one awaits and its \<open>lang\<close>.
\<close>

definition AUTO_RETURN_ENABLED :: bool where
  "AUTO_RETURN_ENABLED = True"

section \<open>Array primitives\<close>

text \<open>\<open>Array.prototype.findIndex\<close>: the first index whose element satisfies the
  predicate, or \<open>-1\<close>.\<close>

fun findIndex :: "('a \<Rightarrow> bool) \<Rightarrow> 'a list \<Rightarrow> int" where
  "findIndex P [] = - 1"
| "findIndex P (x # xs) =
     (if P x then 0
      else (let r = findIndex P xs in if r = - 1 then - 1 else r + 1))"

text \<open>\<open>Array.prototype.splice(start, deleteCount)\<close> with nothing inserted.\<close>

definition splice :: "int \<Rightarrow> int \<Rightarrow> 'a list \<Rightarrow> 'a list" where
  "splice start deleteCount xs =
     (let len = int (length xs);
          relStart = (if start < 0 then max (len + start) 0 else min start len);
          cnt = min (max deleteCount 0) (len - relStart)
      in take (nat relStart) xs @ drop (nat (relStart + cnt)) xs)"

text \<open>
  The loop of \<open>handleGridItemClick\<close>:
  \<^verbatim>\<open>while (usedIndices.includes(rocketIndex) && rocketIndex < 3) rocketIndex++;\<close>
\<close>

function nextRocketIndex :: "nat list \<Rightarrow> nat \<Rightarrow> nat" where
  "nextRocketIndex usedIndices i =
     (if i \<in> set usedIndices \<and> i < 3
      then nextRocketIndex usedIndices (i + 1)
      else i)"
  by pat_completeness auto
termination
  by (relation "measure (\<lambda>(u, i). 3 - i)") auto

declare nextRocketIndex.simps [simp del]

section \<open>Selection manager\<close>

definition updateLaunchButtonState :: "app_state \<Rightarrow> app_state" where
  "updateLaunchButtonState s =
     (case launchButton s of
        None \<Rightarrow> s
      | Some d \<Rightarrow>
          (let hasThreeSelections = (length (selectedItems s) = 3)
           in if hasThreeSelections then s\<lparr>launchButton := Some False\<rparr>
              else s\<lparr>launchButton := Some True\<rparr>))"

text \<open>\<open>updateGridStates\<close> restyles the grid buttons (classes only) and then updates
  the launch button.\<close>

definition updateGridStates :: "app_state \<Rightarrow> app_state" where
  "updateGridStates s = updateLaunchButtonState s"

definition handleGridItemClick :: "grid_button \<Rightarrow> app_state \<Rightarrow> app_state" where
  "handleGridItemClick b s =
     (let k = dataset_key b;
          existingIndex = findIndex (\<lambda>it. key it = k) (selectedItems s);
          s1 = (if existingIndex \<noteq> - 1
                then s\<lparr>selectedItems := splice existingIndex 1 (selectedItems s)\<rparr>
                else if length (selectedItems s) < 3
                then (let usedIndices = map rocketIndex (selectedItems s);
                          ri = nextRocketIndex usedIndices 0
                      in if ri < 3
                         then s\<lparr>selectedItems := selectedItems s @
                                 [\<lparr>gridButton = b, rocketIndex = ri, key = k\<rparr>]\<rparr>
                         else s)
                else s)
      in updateGridStates s1)"

definition handleRocketBlockClick :: "nat \<Rightarrow> app_state \<Rightarrow> app_state" where
  "handleRocketBlockClick ri s =
     (let existingIndex = findIndex (\<lambda>it. rocketIndex it = ri) (selectedItems s)
      in if existingIndex \<noteq> - 1
         then updateGridStates (s\<lparr>selectedItems := splice existingIndex 1 (selectedItems s)\<rparr>)
         else s)"

section \<open>Environment: requests and timers\<close>

text \<open>\<open>fetch\<close> issues a request; its id is \<open>nextRequest\<close> of the state it is issued
  in. \<open>setTimeout\<close> registers a callback; its handle is \<open>nextTimer\<close> of that state
  (handles start at 1, so a handle is never falsy). Timers fire in any order: their
  delays are not part of the model.\<close>

definition fetch :: "request \<Rightarrow> app_state \<Rightarrow> app_state" where
  "fetch r s = s\<lparr>requests := requests s @ [(nextRequest s, r)],
                 nextRequest := Suc (nextRequest s)\<rparr>"

definition setTimeout :: "timer_action \<Rightarrow> app_state \<Rightarrow> app_state" where
  "setTimeout a s = s\<lparr>timers := timers s @ [(nextTimer s, a)],
                      nextTimer := Suc (nextTimer s)\<rparr>"

definition clearTimeout :: "nat \<Rightarrow> app_state \<Rightarrow> app_state" where
  "clearTimeout t s = s\<lparr>timers := filter (\<lambda>(i, a). i \<noteq> t) (timers s)\<rparr>"

section \<open>Language switch\<close>

definition isWordcloudPage :: "app_state \<Rightarrow> bool" where
  "isWordcloudPage s = (pathname s = ''/wordcloud'')"

definition getWordcloudImagePath :: "string \<Rightarrow> string" where
  "getWordcloudImagePath language = ''/static/wordcloud/wordcloud_'' @ language @ ''.png''"

text \<open>\<open>loadWordcloudImage\<close> points the image at the asset of the language (the
  cache-busting query string is left out). \<open>updateWordcloudImage\<close> calls it and only
  logs a failure.\<close>

definition loadWordcloudImage :: "string \<Rightarrow> app_state \<Rightarrow> app_state" where
  "loadWordcloudImage language s =
     s\<lparr>wordcloudImageSrc := Some (getWordcloudImagePath language)\<rparr>"

definition updateWordcloudImage :: "string \<Rightarrow> app_state \<Rightarrow> app_state" where
  "updateWordcloudImage language s = loadWordcloudImage language s"

text \<open>The part of \<open>setLanguage\<close> after \<open>await loadTranslations(lang)\<close>.\<close>

definition setLanguage_loaded :: "string \<Rightarrow> app_state \<Rightarrow> app_state" where
  "setLanguage_loaded lang s =
     (let s1 = s\<lparr>documentLang := Some lang\<rparr>;
          s2 = s1\<lparr>currentTranslations := Some lang\<rparr>
      in if isWordcloudPage s2 then updateWordcloudImage lang s2 else s2)"

text \<open>\<open>setLanguage\<close> up to its await: with the table cached the rest runs before any
  other event; otherwise the call is suspended on the translation request.\<close>

definition setLanguage :: "string \<Rightarrow> app_state \<Rightarrow> app_state" where
  "setLanguage lang s =
     (let s1 = s\<lparr>currentLanguage := lang\<rparr>;
          s2 = s1\<lparr>localStorage := Some lang\<rparr>
      in if lang \<in> set (translationsCache s2) then setLanguage_loaded lang s2
         else (fetch (GetTranslations lang) s2)
                \<lparr>awaitingTranslations := awaitingTranslations s2 @ [(nextRequest s2, lang)]\<rparr>)"

text \<open>The translation request \<open>rid\<close> settles: every call suspended on it resumes, in
  order. A failure is caught and logged by \<open>setLanguage\<close>.\<close>

fun resumeLanguage :: "outcome \<Rightarrow> string list \<Rightarrow> app_state \<Rightarrow> app_state" where
  "resumeLanguage out [] s = s"
| "resumeLanguage out (lang # langs) s =
     resumeLanguage out langs
       (case out of
          Ok \<Rightarrow> setLanguage_loaded lang (s\<lparr>translationsCache := lang # translationsCache s\<rparr>)
        | NotOk \<Rightarrow> s
        | NetworkError \<Rightarrow> s)"

definition translationsSettled :: "nat \<Rightarrow> outcome \<Rightarrow> app_state \<Rightarrow> app_state" where
  "translationsSettled rid out s =
     resumeLanguage out (map snd (filter (\<lambda>(i, l). i = rid) (awaitingTranslations s)))
       (s\<lparr>awaitingTranslations := filter (\<lambda>(i, l). i \<noteq> rid) (awaitingTranslations s)\<rparr>)"

section \<open>View transitions\<close>

definition clearReturnTimer :: "app_state \<Rightarrow> app_state" where
  "clearReturnTimer s =
     (case wordcloudReturnTimer s of
        None \<Rightarrow> s
      | Some t \<Rightarrow> (clearTimeout t s)\<lparr>wordcloudReturnTimer := None\<rparr>)"

definition setLaunchInteractionDisabled :: "bool \<Rightarrow> app_state \<Rightarrow> app_state" where
  "setLaunchInteractionDisabled isDisabled s =
     s\<lparr>gridDisabled := isDisabled,
       rocketDisabled := isDisabled,
       launchButton := map_option (\<lambda>d. isDisabled) (launchButton s)\<rparr>"

text \<open>\<open>returnToSelection\<close> up to its \<open>setTimeout\<close>, and the callback that runs after
  the fade.\<close>

definition returnToSelection :: "app_state \<Rightarrow> app_state" where
  "returnToSelection s =
     (if \<not> isWordcloudVisible s then s
      else (let s1 = clearReturnTimer s;
                s2 = s1\<lparr>isWordcloudVisible := False\<rparr>
            in setTimeout FadeOutDone s2))"

definition returnToSelection_faded :: "app_state \<Rightarrow> app_state" where
  "returnToSelection_faded s =
     (let s1 = s\<lparr>wordcloudHidden := True\<rparr>;
          s2 = s1\<lparr>selectionHidden := False\<rparr>;
          s3 = s2\<lparr>rocketLaunching := False\<rparr>;
          s4 = s3\<lparr>selectedItems := []\<rparr>;
          s5 = updateGridStates s4;
          s6 = updateLaunchButtonState s5
      in setLaunchInteractionDisabled False s6)"

text \<open>\<open>showWordcloudView\<close> up to \<open>await loadWordcloudImage(currentLanguage)\<close>, and the
  part after the image has loaded.\<close>

definition showWordcloudView :: "app_state \<Rightarrow> app_state" where
  "showWordcloudView s =
     (let s1 = s\<lparr>wordcloudHidden := True\<rparr>
      in loadWordcloudImage (currentLanguage s1) s1)"

definition showWordcloudView_loaded :: "app_state \<Rightarrow> app_state" where
  "showWordcloudView_loaded s =
     (let s1 = s\<lparr>selectionHidden := True\<rparr>;
          s2 = s1\<lparr>wordcloudHidden := False\<rparr>;
          s3 = s2\<lparr>isWordcloudVisible := True\<rparr>;
          s4 = clearReturnTimer s3
      in if AUTO_RETURN_ENABLED
         then (setTimeout AutoReturn s4)\<lparr>wordcloudReturnTimer := Some (nextTimer s4)\<rparr>
         else s4)"

definition playRocketLaunchAnimation :: "app_state \<Rightarrow> app_state" where
  "playRocketLaunchAnimation s = setTimeout LaunchFallback (s\<lparr>rocketLaunching := True\<rparr>)"

text \<open>\<open>handleLaunchButtonClick\<close> up to \<open>await playRocketLaunchAnimation()\<close>.\<close>

definition handleLaunchButtonClick :: "app_state \<Rightarrow> app_state" where
  "handleLaunchButtonClick s =
     (if length (selectedItems s) \<noteq> 3 then s
      else (let s1 = s\<lparr>launchButton := map_option (\<lambda>d. True) (launchButton s)\<rparr>;
                s2 = setLaunchInteractionDisabled True s1;
                selectedKeys = map key (selectedItems s2);
                s3 = fetch (PreviewWordcloud selectedKeys (currentLanguage s2)) s2;
                s4 = playRocketLaunchAnimation s3
            in s4\<lparr>launch := AwaitAnimation selectedKeys (nextTimer s3)
                               (Pending (nextRequest s2))\<rparr>))"

text \<open>The \<open>catch\<close> block of \<open>handleLaunchButtonClick\<close>.\<close>

definition launchFailed :: "app_state \<Rightarrow> app_state" where
  "launchFailed s =
     (let s1 = s\<lparr>alerts := alerts s @ [''Failed to submit vote. Please try again.'']\<rparr>;
          s2 = s1\<lparr>launchButton := map_option (\<lambda>d. False) (launchButton s1)\<rparr>;
          s3 = s2\<lparr>rocketLaunching := False\<rparr>;
          s4 = setLaunchInteractionDisabled False s3
      in s4\<lparr>launch := NotRunning\<rparr>)"

text \<open>The animation promise resolves: the vote is submitted and awaited.\<close>

definition launchAnimated :: "string list \<Rightarrow> promise \<Rightarrow> app_state \<Rightarrow> app_state" where
  "launchAnimated selectedKeys precomputePromise s =
     (fetch (SubmitVote selectedKeys) s)
       \<lparr>launch := AwaitVote (nextRequest s) precomputePromise\<rparr>"

text \<open>\<open>await precomputePromise\<close> has returned: \<open>commitWordcloud()\<close> is called and
  awaited. It resolves whatever the response, and then \<open>showWordcloudView()\<close> runs up to
  its await.\<close>

definition launchPrecomputed :: "app_state \<Rightarrow> app_state" where
  "launchPrecomputed s = (fetch CommitWordcloud s)\<lparr>launch := AwaitCommit (nextRequest s)\<rparr>"

definition launchCommitted :: "app_state \<Rightarrow> app_state" where
  "launchCommitted s = (showWordcloudView s)\<lparr>launch := AwaitImage\<rparr>"

text \<open>The vote request settles: a rejected fetch or a response that is not ok throws;
  otherwise \<open>precomputePromise\<close> is awaited.\<close>

definition launchVoted :: "outcome \<Rightarrow> promise \<Rightarrow> app_state \<Rightarrow> app_state" where
  "launchVoted out precomputePromise s =
     (case out of
        Ok \<Rightarrow>
          (case precomputePromise of
             Pending rid \<Rightarrow> s\<lparr>launch := AwaitPrecompute rid\<rparr>
           | Fulfilled \<Rightarrow> launchPrecomputed s
           | Rejected \<Rightarrow> launchFailed s)
      | NotOk \<Rightarrow> launchFailed s
      | NetworkError \<Rightarrow> launchFailed s)"

text \<open>\<open>precomputeWordcloud\<close> throws on a rejected fetch and on a response that is not
  ok.\<close>

definition settle :: "outcome \<Rightarrow> promise" where
  "settle out = (case out of Ok \<Rightarrow> Fulfilled | NotOk \<Rightarrow> Rejected | NetworkError \<Rightarrow> Rejected)"

text \<open>A response to request \<open>rid\<close> reaches the suspended \<open>handleLaunchButtonClick\<close>.\<close>

definition launchSettled :: "nat \<Rightarrow> outcome \<Rightarrow> app_state \<Rightarrow> app_state" where
  "launchSettled rid out s =
     (case launch s of
        NotRunning \<Rightarrow> s
      | AwaitAnimation ks t p \<Rightarrow>
          (if p = Pending rid then s\<lparr>launch := AwaitAnimation ks t (settle out)\<rparr> else s)
      | AwaitVote vid p \<Rightarrow>
          (if rid = vid then launchVoted out p s
           else if p = Pending rid then s\<lparr>launch := AwaitVote vid (settle out)\<rparr>
           else s)
      | AwaitPrecompute pid \<Rightarrow>
          (if rid = pid
           then (case settle out of
                   Fulfilled \<Rightarrow> launchPrecomputed s
                 | Rejected \<Rightarrow> launchFailed s
                 | Pending r \<Rightarrow> s)
           else s)
      | AwaitCommit cid \<Rightarrow> (if rid = cid then launchCommitted s else s)
      | AwaitImage \<Rightarrow> s)"

text \<open>The rocket's \<open>animationend\<close> listener and the fallback timer both resolve the
  animation promise of the call that registered them.\<close>

definition animationEnded :: "app_state \<Rightarrow> app_state" where
  "animationEnded s =
     (case launch s of
        AwaitAnimation ks t p \<Rightarrow> launchAnimated ks p s
      | _ \<Rightarrow> s)"

definition launchFallback :: "nat \<Rightarrow> app_state \<Rightarrow> app_state" where
  "launchFallback t s =
     (if rocketLaunching s
      then (case launch s of
              AwaitAnimation ks t' p \<Rightarrow> (if t' = t then launchAnimated ks p s else s)
            | _ \<Rightarrow> s)
      else s)"

text \<open>The \<open>load\<close> or \<open>error\<close> event of the word-cloud image.\<close>

definition imageSettled :: "bool \<Rightarrow> app_state \<Rightarrow> app_state" where
  "imageSettled loaded s =
     (case launch s of
        AwaitImage \<Rightarrow>
          (if loaded then (showWordcloudView_loaded s)\<lparr>launch := NotRunning\<rparr>
           else launchFailed s)
      | _ \<Rightarrow> s)"

definition timerFired :: "nat \<Rightarrow> app_state \<Rightarrow> app_state" where
  "timerFired t s =
     (case map_of (timers s) t of
        None \<Rightarrow> s
      | Some a \<Rightarrow>
          (let s1 = clearTimeout t s
           in case a of
                AutoReturn \<Rightarrow> returnToSelection s1
              | FadeOutDone \<Rightarrow> returnToSelection_faded s1
              | LaunchFallback \<Rightarrow> launchFallback t s1))"

section \<open>Events\<close>

datatype event =
    GridClick grid_button
  | RocketClick nat
  | LaunchClick
  | LangClick string
  | BackClick
  | TimerFire nat
  | AnimationEnd
  | Response nat outcome
  | ImageLoad bool

text \<open>
  Modelled from the spec: the page templates are not under src/. Section 4.2 has the
  entry into Transitioning "disable all selection interaction", which the script does by
  setting the \<open>disabled\<close> property of the grid and rocket buttons: they are button
  elements, and a disabled button receives no click.
\<close>

definition receivesClick :: "bool \<Rightarrow> bool" where
  "receivesClick isDisabled = (\<not> isDisabled)"

text \<open>The listeners registered on \<open>DOMContentLoaded\<close>. Navigating away unloads the
  page, after which the script handles nothing.\<close>

definition step :: "event \<Rightarrow> app_state \<Rightarrow> app_state" where
  "step e s =
     (if unloaded s then s
      else (case e of
              GridClick b \<Rightarrow>
                (if receivesClick (gridDisabled s) then handleGridItemClick b s else s)
            | RocketClick ri \<Rightarrow>
                (if receivesClick (rocketDisabled s) then handleRocketBlockClick ri s else s)
            | LaunchClick \<Rightarrow>
                (case launchButton s of
                   None \<Rightarrow> s
                 | Some d \<Rightarrow> (if \<not> d then handleLaunchButtonClick s else s))
            | LangClick lang \<Rightarrow> (if lang \<noteq> [] then setLanguage lang s else s)
            | BackClick \<Rightarrow>
                (if isWordcloudPage s then s\<lparr>unloaded := True\<rparr> else returnToSelection s)
            | TimerFire t \<Rightarrow> timerFired t s
            | AnimationEnd \<Rightarrow> animationEnded s
            | Response rid out \<Rightarrow> translationsSettled rid out (launchSettled rid out s)
            | ImageLoad loaded \<Rightarrow> imageSettled loaded s))"

fun run :: "event list \<Rightarrow> app_state \<Rightarrow> app_state" where
  "run [] s = s"
| "run (e # es) s = run es (step e s)"

text \<open>
  Modelled from the spec: the page templates are not under src/. A freshly loaded page
  has an empty selection (section 3), no button disabled, the selection shown and the
  word cloud hidden; the index page has the launch button of section 4.1, the
  page at \<open>/wordcloud\<close> has none.
\<close>

definition pageTemplate :: "string \<Rightarrow> bool option" where
  "pageTemplate path = (if path = ''/wordcloud'' then None else Some False)"

text \<open>The state once the \<open>DOMContentLoaded\<close> handler has run, for the language kept
  in local storage and the path of the page.\<close>

definition init :: "string option \<Rightarrow> string \<Rightarrow> app_state" where
  "init stored path =
     (let lang = (case stored of None \<Rightarrow> ''en'' | Some l \<Rightarrow> if l = [] then ''en'' else l);
          s0 = \<lparr>translationsCache = [], currentTranslations = None, selectedItems = [],
                currentLanguage = lang, wordcloudReturnTimer = None,
                isWordcloudVisible = False, pathname = path, documentLang = None,
                launchButton = pageTemplate path, gridDisabled = False,
                rocketDisabled = False, selectionHidden = False, wordcloudHidden = True,
                rocketLaunching = False, wordcloudImageSrc = None, localStorage = stored,
                timers = [], nextTimer = 1, requests = [], nextRequest = 0,
                awaitingTranslations = [], alerts = [], unloaded = False,
                launch = NotRunning\<rparr>;
          s1 = setLanguage (currentLanguage s0) s0;
          s2 = (if isWordcloudPage s1 then updateWordcloudImage (currentLanguage s1) s1 else s1);
          s3 = (if \<not> isWordcloudPage s2 then fetch CommitWordcloud s2 else s2)
      in if \<not> isWordcloudPage s3 then updateLaunchButtonState s3 else s3)"

section \<open>Properties\<close>

text \<open>The invariant of the selection (section 3 of the specification): keys are
  unique, slot indices are unique, and each slot index is below 3.\<close>

definition sel_inv :: "item list \<Rightarrow> bool" where
  "sel_inv sel = (distinct (map key sel) \<and> distinct (map rocketIndex sel) \<and>
                  list_all (\<lambda>it. rocketIndex it < 3) sel)"

text \<open>A sequence of clicks on grid buttons, in order.\<close>

fun toggleItems :: "grid_button list \<Rightarrow> app_state \<Rightarrow> app_state" where
  "toggleItems [] s = s"
| "toggleItems (b # bs) s = toggleItems bs (handleGridItemClick b s)"

text \<open>
  The invariant of the controller. Timers other than the animation fallbacks are the
  control timers: at most one is pending, the auto-return while the word cloud is shown
  and the fade callback while a return is in progress. While a launch is in flight, the
  word cloud is shown or a return is in progress, the page is locked: every button is
  disabled and three items are selected.
\<close>

definition control_timers :: "app_state \<Rightarrow> (nat \<times> timer_action) list" where
  "control_timers s = filter (\<lambda>x. snd x \<noteq> LaunchFallback) (timers s)"

definition locked :: "app_state \<Rightarrow> bool" where
  "locked s = (launchButton s = Some True \<and> gridDisabled s \<and> rocketDisabled s \<and>
               length (selectedItems s) = 3)"

definition timers_fresh :: "app_state \<Rightarrow> bool" where
  "timers_fresh s = (list_all (\<lambda>x. fst x < nextTimer s) (timers s) \<and>
                     distinct (map fst (timers s)))"

definition phase_inv :: "app_state \<Rightarrow> bool" where
  "phase_inv s =
     (if isWordcloudVisible s
      then launch s = NotRunning \<and> locked s \<and>
           (\<exists>t. wordcloudReturnTimer s = Some t \<and> control_timers s = [(t, AutoReturn)])
      else wordcloudReturnTimer s = None \<and>
           (if launch s \<noteq> NotRunning then locked s \<and> control_timers s = []
            else control_timers s = [] \<or>
                 (locked s \<and> (\<exists>f. control_timers s = [(f, FadeOutDone)]))))"

definition page_inv :: "app_state \<Rightarrow> bool" where
  "page_inv s = ((isWordcloudPage s \<longrightarrow> launchButton s = None) \<and>
                 (unloaded s \<longrightarrow> isWordcloudPage s))"

definition ctl_inv :: "app_state \<Rightarrow> bool" where
  "ctl_inv s = (sel_inv (selectedItems s) \<and> timers_fresh s \<and> page_inv s \<and> phase_inv s)"

text \<open>Sample data: four grid buttons, the selection of the first three in order, and
  the index page with a given selection and launch button.\<close>

definition btn_food :: grid_button where "btn_food = \<lparr>button_id = 1, dataset_key = ''food''\<rparr>"
definition btn_music :: grid_button where "btn_music = \<lparr>button_id = 2, dataset_key = ''music''\<rparr>"
definition btn_book :: grid_button where "btn_book = \<lparr>button_id = 3, dataset_key = ''book''\<rparr>"
definition btn_phone :: grid_button where "btn_phone = \<lparr>button_id = 4, dataset_key = ''phone''\<rparr>"

definition sample_picked :: "item list" where
  "sample_picked = [\<lparr>gridButton = btn_food, rocketIndex = 0, key = ''food''\<rparr>,
             \<lparr>gridButton = btn_music, rocketIndex = 1, key = ''music''\<rparr>,
             \<lparr>gridButton = btn_book, rocketIndex = 2, key = ''book''\<rparr>]"

definition sample_page :: "item list \<Rightarrow> bool \<Rightarrow> app_state" where
  "sample_page sel dis =
     \<lparr>translationsCache = [], currentTranslations = None, selectedItems = sel,
      currentLanguage = ''en'', wordcloudReturnTimer = None, isWordcloudVisible = False,
      pathname = ''/'', documentLang = None, launchButton = Some dis, gridDisabled = False,
      rocketDisabled = False, selectionHidden = False, wordcloudHidden = True,
      rocketLaunching = False, wordcloudImageSrc = None, localStorage = Some ''en'',
      timers = [], nextTimer = 1,
      requests = [(0, GetTranslations ''en''), (1, CommitWordcloud)], nextRequest = 2,
      awaitingTranslations = [(0, ''en'')], alerts = [], unloaded = False,
      launch = NotRunning\<rparr>"

definition sample_launched :: app_state where
  "sample_launched =
     (sample_page sample_picked True)
       \<lparr>gridDisabled := True, rocketDisabled := True, rocketLaunching := True,
        timers := [(1, LaunchFallback)], nextTimer := 2,
        requests := [(0, GetTranslations ''en''), (1, CommitWordcloud),
                     (2, PreviewWordcloud [''food'', ''music'', ''book''] ''en'')],
        nextRequest := 3,
        launch := AwaitAnimation [''food'', ''music'', ''book''] 1 (Pending 2)\<rparr>"

text \<open>Before the first click on the launch button the page is quiet: no launch is in
  flight, the word cloud is hidden, no timer is pending, and the launch button follows
  the selection.\<close>

definition quiet :: "string \<Rightarrow> app_state \<Rightarrow> bool" where
  "quiet path s =
     (launch s = NotRunning \<and> \<not> isWordcloudVisible s \<and> timers s = [] \<and>
      pathname s = path \<and> \<not> unloaded s \<and>
      launchButton s = Some (length (selectedItems s) \<noteq> 3))"

text \<open>The sample run up to the word cloud being shown.\<close>

definition sample_shown :: app_state where
  "sample_shown =
     sample_launched
       \<lparr>wordcloudReturnTimer := Some 2, isWordcloudVisible := True, selectionHidden := True,
        wordcloudHidden := False,
        wordcloudImageSrc := Some ''/static/wordcloud/wordcloud_en.png'',
        timers := [(1, LaunchFallback), (2, AutoReturn)], nextTimer := 3,
        requests := [(0, GetTranslations ''en''), (1, CommitWordcloud),
                     (2, PreviewWordcloud [''food'', ''music'', ''book''] ''en''),
                     (3, SubmitVote [''food'', ''music'', ''book'']), (4, CommitWordcloud)],
        nextRequest := 5, launch := NotRunning\<rparr>"

definition sample_show :: "event list" where
  "sample_show = [GridClick btn_food, GridClick btn_music, GridClick btn_book, LaunchClick,
                  AnimationEnd, Response 3 Ok, Response 2 Ok, Response 4 Ok, ImageLoad True]"

text \<open>The launch started with fallback timer \<open>tid\<close> and precomputation request
  \<open>rid\<close> has got as far as the events seen so far allow: it is past the animation
  only if the animation has ended or its fallback has fired, and it counts the
  precomputation as successful only if the successful response has arrived.\<close>

definition promise_ok :: "nat \<Rightarrow> bool \<Rightarrow> promise \<Rightarrow> bool" where
  "promise_ok rid P p = (case p of Pending r \<Rightarrow> r = rid | Fulfilled \<Rightarrow> P | Rejected \<Rightarrow> True)"

definition awaited :: "nat \<Rightarrow> nat \<Rightarrow> event set \<Rightarrow> app_state \<Rightarrow> bool" where
  "awaited tid rid E s =
     ((if isWordcloudVisible s
       then (AnimationEnd \<in> E \<or> TimerFire tid \<in> E) \<and> Response rid Ok \<in> E else True) \<and>
      (case launch s of
         NotRunning \<Rightarrow> True
       | AwaitAnimation ks t p \<Rightarrow> t = tid \<and> promise_ok rid (Response rid Ok \<in> E) p
       | AwaitVote v p \<Rightarrow>
           (AnimationEnd \<in> E \<or> TimerFire tid \<in> E) \<and> promise_ok rid (Response rid Ok \<in> E) p
       | AwaitPrecompute r \<Rightarrow> (AnimationEnd \<in> E \<or> TimerFire tid \<in> E) \<and> r = rid
       | AwaitCommit c \<Rightarrow> (AnimationEnd \<in> E \<or> TimerFire tid \<in> E) \<and> Response rid Ok \<in> E
       | AwaitImage \<Rightarrow> (AnimationEnd \<in> E \<or> TimerFire tid \<in> E) \<and> Response rid Ok \<in> E))"

text \<open>State \<open>t\<close> is the selection view restored from the launch in flight in \<open>s\<close>: no
  launch in flight, the word cloud not shown, the selection of \<open>s\<close> with its three
  entries, every button enabled, the rocket back, and one more alert.\<close>

definition restored :: "app_state \<Rightarrow> app_state \<Rightarrow> bool" where
  "restored s t =
     (launch t = NotRunning \<and> \<not> isWordcloudVisible t \<and>
      selectedItems t = selectedItems s \<and> length (selectedItems t) = 3 \<and>
      launchButton t = Some False \<and> \<not> gridDisabled t \<and> \<not> rocketDisabled t \<and>
      \<not> rocketLaunching t \<and>
      alerts t = alerts s @ [''Failed to submit vote. Please try again.''])"

text \<open>The requests issued so far other than those for translations, in order.\<close>

definition other_requests :: "app_state \<Rightarrow> request list" where
  "other_requests s =
     filter (\<lambda>r. case r of GetTranslations l \<Rightarrow> False | _ \<Rightarrow> True) (map snd (requests s))"

text \<open>The selection view: no launch is in flight, the word cloud is not shown, and no
  return is fading out.\<close>

definition selecting :: "app_state \<Rightarrow> bool" where
  "selecting s = (launch s = NotRunning \<and> \<not> isWordcloudVisible s \<and>
                  FadeOutDone \<notin> snd ` set (timers s))"

text \<open>The invariant of the launch button on the index page, given whether the word cloud
  has been shown so far. Until it has, the word cloud is hidden and no control timer is
  pending. In the selection view the grid and rocket buttons are enabled, and the launch
  button follows the selection, or else the word cloud has been shown before, nothing is
  selected and the launch button is enabled.\<close>

definition button_inv :: "bool \<Rightarrow> app_state \<Rightarrow> bool" where
  "button_inv shownBefore s =
     (launchButton s \<noteq> None \<and>
      (\<not> shownBefore \<longrightarrow> \<not> isWordcloudVisible s \<and> control_timers s = []) \<and>
      (launch s = NotRunning \<and> \<not> isWordcloudVisible s \<and> control_timers s = [] \<longrightarrow>
         \<not> gridDisabled s \<and> \<not> rocketDisabled s \<and>
         (launchButton s = Some (length (selectedItems s) \<noteq> 3) \<or>
          shownBefore \<and> selectedItems s = [] \<and> launchButton s = Some False)))"

text \<open>The launch in flight holds a rejected precomputation that it has not awaited
  yet.\<close>

definition rejection_held :: "app_state \<Rightarrow> bool" where
  "rejection_held s =
     (case launch s of
        AwaitAnimation ks t p \<Rightarrow> p = Rejected
      | AwaitVote v p \<Rightarrow> p = Rejected
      | _ \<Rightarrow> False)"

text \<open>While the animation is awaited the rocket has its \<open>launching\<close> class and the
  fallback timer of the animation is pending.\<close>

definition animating :: "launch_pc \<Rightarrow> bool" where
  "animating pc = (case pc of AwaitAnimation ks t p \<Rightarrow> True | _ \<Rightarrow> False)"

definition anim_inv :: "app_state \<Rightarrow> bool" where
  "anim_inv s =
     (case launch s of
        AwaitAnimation ks t p \<Rightarrow> rocketLaunching s \<and> map_of (timers s) t = Some LaunchFallback
      | _ \<Rightarrow> True)"

text \<open>Sample runs: a launch whose vote is refused, a launch whose precomputation is
  refused during the animation, and a return from the word cloud.\<close>

definition sample_failed :: "event list" where
  "sample_failed = [GridClick btn_food, GridClick btn_music, GridClick btn_book, LaunchClick,
                    AnimationEnd, Response 3 NotOk]"

definition sample_rejected :: "event list" where
  "sample_rejected = [GridClick btn_food, GridClick btn_music, GridClick btn_book, LaunchClick,
                      Response 2 NotOk]"

definition sample_returned :: "event list" where
  "sample_returned = sample_show @ [BackClick, TimerFire 3]"

subsection \<open>Arrays\<close>

lemma findIndex_ge: "- 1 \<le> findIndex P xs"
  by (induction xs) (auto simp: Let_def)

lemma findIndex_none: "(findIndex P xs = - 1) = (\<forall>x\<in>set xs. \<not> P x)"
proof (induction xs)
  case Nil
  show ?case by simp
next
  case (Cons x xs)
  have "- 1 \<le> findIndex P xs" by (rule findIndex_ge)
  with Cons show ?case by (auto simp: Let_def)
qed

lemma findIndex_first:
  "findIndex P xs \<noteq> - 1 \<Longrightarrow>
     0 \<le> findIndex P xs \<and> nat (findIndex P xs) < length xs \<and>
     P (xs ! nat (findIndex P xs)) \<and> (\<forall>j < nat (findIndex P xs). \<not> P (xs ! j))"
proof (induction xs)
  case Nil
  then show ?case by simp
next
  case (Cons x xs)
  show ?case
  proof (cases "P x")
    case True
    then show ?thesis by simp
  next
    case False
    with Cons.prems have ne: "findIndex P xs \<noteq> - 1" by (auto simp: Let_def split: if_splits)
    from Cons.IH [OF ne] have ih: "0 \<le> findIndex P xs" "nat (findIndex P xs) < length xs"
      "P (xs ! nat (findIndex P xs))" "\<forall>j < nat (findIndex P xs). \<not> P (xs ! j)" by auto
    have eq: "findIndex P (x # xs) = findIndex P xs + 1" using False ne by (simp add: Let_def)
    have n: "nat (findIndex P xs + 1) = Suc (nat (findIndex P xs))" using ih(1) by simp
    show ?thesis unfolding eq n using ih False
      by (auto simp: nth_Cons split: nat.splits)
  qed
qed

lemma splice_one:
  assumes "0 \<le> i" "nat i < length xs"
  shows "splice i 1 xs = take (nat i) xs @ drop (Suc (nat i)) xs"
proof -
  have lt: "i < int (length xs)" using assms by linarith
  have a: "min i (int (length xs)) = i" using lt by simp
  have b: "min (max 1 0) (int (length xs) - i) = (1::int)" using lt by simp
  have c: "nat (i + 1) = Suc (nat i)" using assms(1) by simp
  show ?thesis
    unfolding splice_def Let_def using assms(1) by (simp only: a b c if_False not_less [symmetric] simp_thms) 
qed

lemma splice_findIndex:
  assumes "findIndex P xs \<noteq> - 1"
  shows "splice (findIndex P xs) 1 xs =
           take (nat (findIndex P xs)) xs @ drop (Suc (nat (findIndex P xs))) xs"
  using findIndex_first [OF assms] by (simp add: splice_one)

lemma take_drop_filter_unique:
  assumes "i < length xs" "P (xs ! i)" "\<forall>j < length xs. j \<noteq> i \<longrightarrow> \<not> P (xs ! j)"
  shows "take i xs @ drop (Suc i) xs = filter (\<lambda>x. \<not> P x) xs"
proof -
  have xs: "xs = take i xs @ xs ! i # drop (Suc i) xs"
    using assms(1) by (simp add: id_take_nth_drop)
  have t: "\<forall>x \<in> set (take i xs). \<not> P x"
  proof
    fix x assume "x \<in> set (take i xs)"
    then obtain j where "j < length (take i xs)" "take i xs ! j = x" by (auto simp: in_set_conv_nth)
    then have "j < i" "xs ! j = x" using assms(1) by auto
    with assms show "\<not> P x" by auto
  qed
  have d: "\<forall>x \<in> set (drop (Suc i) xs). \<not> P x"
  proof
    fix x assume "x \<in> set (drop (Suc i) xs)"
    then obtain j where j: "j < length (drop (Suc i) xs)" "drop (Suc i) xs ! j = x"
      by (auto simp: in_set_conv_nth)
    then have "Suc i + j < length xs" "xs ! (Suc i + j) = x" by auto
    with assms show "\<not> P x" by auto
  qed
  have "filter (\<lambda>x. \<not> P x) xs = filter (\<lambda>x. \<not> P x) (take i xs @ xs ! i # drop (Suc i) xs)"
    using xs by simp
  also have "\<dots> = take i xs @ drop (Suc i) xs"
    using t d assms(2) by (simp add: filter_id_conv)
  finally show ?thesis by simp
qed


lemma nextRocketIndex_spec:
  "i \<le> nextRocketIndex u i \<and>
   (nextRocketIndex u i \<notin> set u \<or> 3 \<le> nextRocketIndex u i) \<and>
   (\<forall>j. i \<le> j \<and> j < nextRocketIndex u i \<longrightarrow> j \<in> set u)"
proof (induction u i rule: nextRocketIndex.induct)
  case (1 u i)
  show ?case
  proof (cases "i \<in> set u \<and> i < 3")
    case True
    then have eq: "nextRocketIndex u i = nextRocketIndex u (i + 1)"
      by (subst nextRocketIndex.simps) simp
    from "1" [OF True] have ih: "i + 1 \<le> nextRocketIndex u (i + 1)"
      "nextRocketIndex u (i + 1) \<notin> set u \<or> 3 \<le> nextRocketIndex u (i + 1)"
      "\<forall>j. i + 1 \<le> j \<and> j < nextRocketIndex u (i + 1) \<longrightarrow> j \<in> set u" by auto
    have "\<forall>j. i \<le> j \<and> j < nextRocketIndex u (i + 1) \<longrightarrow> j \<in> set u"
    proof (intro allI impI)
      fix j assume j: "i \<le> j \<and> j < nextRocketIndex u (i + 1)"
      show "j \<in> set u"
      proof (cases "j = i")
        case True
        with \<open>i \<in> set u \<and> i < 3\<close> show ?thesis by simp
      next
        case False
        with j have "i + 1 \<le> j" by simp
        with j ih(3) show ?thesis by blast
      qed
    qed
    with ih show ?thesis unfolding eq by simp
  next
    case False
    have eq: "nextRocketIndex u i = i"
      by (subst nextRocketIndex.simps) (simp only: False if_False)
    show ?thesis unfolding eq using False by auto
  qed
qed

lemma nextRocketIndex_le3: "i \<le> 3 \<Longrightarrow> nextRocketIndex u i \<le> 3"
proof (induction u i rule: nextRocketIndex.induct)
  case (1 u i)
  show ?case
  proof (cases "i \<in> set u \<and> i < 3")
    case True
    then have "nextRocketIndex u i = nextRocketIndex u (i + 1)"
      by (subst nextRocketIndex.simps) simp
    moreover have "nextRocketIndex u (i + 1) \<le> 3" using "1.IH" [OF True] True by simp
    ultimately show ?thesis by simp
  next
    case False
    have "nextRocketIndex u i = i"
      by (subst nextRocketIndex.simps) (simp only: False if_False)
    with "1.prems" show ?thesis by simp
  qed
qed

lemma slots_bounded_length:
  assumes "distinct u" "\<forall>x\<in>set u. x < (3::nat)"
  shows "length u \<le> 3"
proof -
  have "set u \<subseteq> {..<3}" using assms(2) by auto
  then have "card (set u) \<le> card {..<(3::nat)}" by (intro card_mono) auto
  then show ?thesis using assms(1) by (simp add: distinct_card)
qed

lemma nextRocketIndex_free:
  assumes "distinct u" "\<forall>x\<in>set u. x < (3::nat)" "length u < 3"
  shows "nextRocketIndex u 0 < 3"
proof (rule ccontr)
  assume "\<not> nextRocketIndex u 0 < 3"
  moreover have "nextRocketIndex u 0 \<le> 3" by (rule nextRocketIndex_le3) simp
  ultimately have r: "nextRocketIndex u 0 = 3" by simp
  have "\<forall>j. 0 \<le> j \<and> j < nextRocketIndex u 0 \<longrightarrow> j \<in> set u"
    using nextRocketIndex_spec [of 0 u] by blast
  then have "{..<3} \<subseteq> set u" unfolding r by auto
  then have "card {..<(3::nat)} \<le> card (set u)" by (intro card_mono) auto
  then have "3 \<le> length u" using assms(1) by (simp add: distinct_card)
  with assms(3) show False by simp
qed

lemma sel_inv_length: "sel_inv sel \<Longrightarrow> length sel \<le> 3"
  using slots_bounded_length [of "map rocketIndex sel"]
  by (auto simp: sel_inv_def list_all_iff)

lemma sel_inv_filter: "sel_inv sel \<Longrightarrow> sel_inv (filter P sel)"
  by (auto simp: sel_inv_def list_all_iff distinct_map_filter)

lemma selectedItems_updateLaunchButtonState [simp]:
  "selectedItems (updateLaunchButtonState s) = selectedItems s"
  by (simp add: updateLaunchButtonState_def Let_def split: option.splits)

lemma selectedItems_updateGridStates [simp]:
  "selectedItems (updateGridStates s) = selectedItems s"
  by (simp add: updateGridStates_def)

lemma unique_by_distinct:
  assumes "distinct (map f xs)" "i < length xs"
  shows "\<forall>j < length xs. j \<noteq> i \<longrightarrow> f (xs ! j) \<noteq> f (xs ! i)"
proof (intro allI impI)
  fix j assume j: "j < length xs" "j \<noteq> i"
  have "(map f xs ! j = map f xs ! i) = (j = i)"
    using assms j by (intro nth_eq_iff_index_eq) simp_all
  with assms(2) j show "f (xs ! j) \<noteq> f (xs ! i)" by simp
qed

text \<open>Removal by \<open>findIndex\<close> and \<open>splice\<close> deletes one position and nothing else;
  with unique values of \<open>f\<close> it is the filter on \<open>f\<close>.\<close>

lemma remove_found:
  assumes "v \<in> f ` set xs"
  shows "findIndex (\<lambda>x. f x = v) xs \<noteq> - 1"
    and "nat (findIndex (\<lambda>x. f x = v) xs) < length xs"
    and "f (xs ! nat (findIndex (\<lambda>x. f x = v) xs)) = v"
    and "splice (findIndex (\<lambda>x. f x = v) xs) 1 xs =
           take (nat (findIndex (\<lambda>x. f x = v) xs)) xs @
           drop (Suc (nat (findIndex (\<lambda>x. f x = v) xs))) xs"
proof -
  show ne: "findIndex (\<lambda>x. f x = v) xs \<noteq> - 1"
    using assms by (auto simp: findIndex_none)
  from findIndex_first [OF ne]
  show "nat (findIndex (\<lambda>x. f x = v) xs) < length xs"
    and "f (xs ! nat (findIndex (\<lambda>x. f x = v) xs)) = v" by auto
  show "splice (findIndex (\<lambda>x. f x = v) xs) 1 xs =
           take (nat (findIndex (\<lambda>x. f x = v) xs)) xs @
           drop (Suc (nat (findIndex (\<lambda>x. f x = v) xs))) xs"
    by (rule splice_findIndex [OF ne])
qed

lemma remove_found_filter:
  assumes "v \<in> f ` set xs" "distinct (map f xs)"
  shows "splice (findIndex (\<lambda>x. f x = v) xs) 1 xs = filter (\<lambda>x. f x \<noteq> v) xs"
proof -
  let ?i = "nat (findIndex (\<lambda>x. f x = v) xs)"
  note r = remove_found [OF assms(1)]
  have u: "\<forall>j < length xs. j \<noteq> ?i \<longrightarrow> \<not> (f (xs ! j) = v)"
    using unique_by_distinct [OF assms(2) r(2)] r(3) by simp
  have "take ?i xs @ drop (Suc ?i) xs = filter (\<lambda>x. \<not> (f x = v)) xs"
    by (rule take_drop_filter_unique [OF r(2) r(3) u])
  with r(4) show ?thesis by simp
qed

lemma handleGridItemClick_present:
  assumes "dataset_key b \<in> key ` set (selectedItems s)"
  shows "selectedItems (handleGridItemClick b s) =
           splice (findIndex (\<lambda>it. key it = dataset_key b) (selectedItems s)) 1 (selectedItems s)"
  using remove_found(1) [OF assms] by (simp add: handleGridItemClick_def Let_def)

lemma handleGridItemClick_absent:
  assumes "dataset_key b \<notin> key ` set (selectedItems s)"
  shows "selectedItems (handleGridItemClick b s) =
           (if length (selectedItems s) < 3 \<and> nextRocketIndex (map rocketIndex (selectedItems s)) 0 < 3
            then selectedItems s @
                   [\<lparr>gridButton = b,
                     rocketIndex = nextRocketIndex (map rocketIndex (selectedItems s)) 0,
                     key = dataset_key b\<rparr>]
            else selectedItems s)"
proof -
  have "findIndex (\<lambda>it. key it = dataset_key b) (selectedItems s) = - 1"
    unfolding findIndex_none using assms by (metis imageI)
  then show ?thesis by (simp add: handleGridItemClick_def Let_def)
qed

lemma handleRocketBlockClick_present:
  assumes "ri \<in> rocketIndex ` set (selectedItems s)"
  shows "selectedItems (handleRocketBlockClick ri s) =
           splice (findIndex (\<lambda>it. rocketIndex it = ri) (selectedItems s)) 1 (selectedItems s)"
  using remove_found(1) [OF assms] by (simp add: handleRocketBlockClick_def Let_def)

lemma handleRocketBlockClick_absent:
  assumes "ri \<notin> rocketIndex ` set (selectedItems s)"
  shows "handleRocketBlockClick ri s = s"
proof -
  have "findIndex (\<lambda>it. rocketIndex it = ri) (selectedItems s) = - 1"
    unfolding findIndex_none using assms by (metis imageI)
  then show ?thesis by (simp add: handleRocketBlockClick_def Let_def)
qed

lemma sel_inv_append:
  assumes "sel_inv sel" "k \<notin> key ` set sel" "ri \<notin> rocketIndex ` set sel" "ri < 3"
  shows "sel_inv (sel @ [\<lparr>gridButton = b, rocketIndex = ri, key = k\<rparr>])"
  using assms by (auto simp: sel_inv_def)

lemma sel_inv_handleGridItemClick:
  assumes "sel_inv (selectedItems s)"
  shows "sel_inv (selectedItems (handleGridItemClick b s))"
proof (cases "dataset_key b \<in> key ` set (selectedItems s)")
  case True
  have "distinct (map key (selectedItems s))" using assms by (simp add: sel_inv_def)
  from remove_found_filter [OF True this] handleGridItemClick_present [OF True]
  show ?thesis using sel_inv_filter [OF assms] by simp
next
  case False
  let ?r = "nextRocketIndex (map rocketIndex (selectedItems s)) 0"
  show ?thesis
  proof (cases "length (selectedItems s) < 3 \<and> ?r < 3")
    case True
    then have "?r \<notin> set (map rocketIndex (selectedItems s))"
      using nextRocketIndex_spec [of 0 "map rocketIndex (selectedItems s)"] by auto
    then have "?r \<notin> rocketIndex ` set (selectedItems s)" by simp
    from sel_inv_append [OF assms False this] True
    show ?thesis by (simp add: handleGridItemClick_absent [OF False])
  next
    case no: False
    show ?thesis using assms by (simp only: handleGridItemClick_absent [OF False] no if_False)
  qed
qed

lemma sel_inv_handleRocketBlockClick:
  assumes "sel_inv (selectedItems s)"
  shows "sel_inv (selectedItems (handleRocketBlockClick ri s))"
proof (cases "ri \<in> rocketIndex ` set (selectedItems s)")
  case True
  have "distinct (map rocketIndex (selectedItems s))" using assms by (simp add: sel_inv_def)
  from remove_found_filter [OF True this] handleRocketBlockClick_present [OF True]
  show ?thesis using sel_inv_filter [OF assms] by simp
next
  case False
  then show ?thesis using assms by (simp add: handleRocketBlockClick_absent)
qed

lemma sel_inv_toggleItems:
  "sel_inv (selectedItems s) \<Longrightarrow> sel_inv (selectedItems (toggleItems bs s))"
  by (induction bs arbitrary: s) (auto intro: sel_inv_handleGridItemClick)



subsection \<open>The controller invariant\<close>

lemma updateLaunchButtonState_nf:
  "updateLaunchButtonState s =
     s\<lparr>launchButton := map_option (\<lambda>d. length (selectedItems s) \<noteq> 3) (launchButton s)\<rparr>"
  by (cases "launchButton s") (simp_all add: updateLaunchButtonState_def Let_def)

lemma setLanguage_loaded_frame:
  "selectedItems (setLanguage_loaded l s) = selectedItems s"
  "timers (setLanguage_loaded l s) = timers s"
  "nextTimer (setLanguage_loaded l s) = nextTimer s"
  "launch (setLanguage_loaded l s) = launch s"
  "isWordcloudVisible (setLanguage_loaded l s) = isWordcloudVisible s"
  "wordcloudReturnTimer (setLanguage_loaded l s) = wordcloudReturnTimer s"
  "pathname (setLanguage_loaded l s) = pathname s"
  "unloaded (setLanguage_loaded l s) = unloaded s"
  "launchButton (setLanguage_loaded l s) = launchButton s"
  "gridDisabled (setLanguage_loaded l s) = gridDisabled s"
  "rocketDisabled (setLanguage_loaded l s) = rocketDisabled s"
  "alerts (setLanguage_loaded l s) = alerts s"
  "requests (setLanguage_loaded l s) = requests s"
  "nextRequest (setLanguage_loaded l s) = nextRequest s"
  "rocketLaunching (setLanguage_loaded l s) = rocketLaunching s"
  "selectionHidden (setLanguage_loaded l s) = selectionHidden s"
  "translationsCache (setLanguage_loaded l s) = translationsCache s"
  "wordcloudHidden (setLanguage_loaded l s) = wordcloudHidden s"
  by (simp_all add: setLanguage_loaded_def Let_def updateWordcloudImage_def
      loadWordcloudImage_def)

lemma setLanguage_frame:
  "selectedItems (setLanguage l s) = selectedItems s"
  "timers (setLanguage l s) = timers s"
  "nextTimer (setLanguage l s) = nextTimer s"
  "launch (setLanguage l s) = launch s"
  "isWordcloudVisible (setLanguage l s) = isWordcloudVisible s"
  "wordcloudReturnTimer (setLanguage l s) = wordcloudReturnTimer s"
  "pathname (setLanguage l s) = pathname s"
  "unloaded (setLanguage l s) = unloaded s"
  "launchButton (setLanguage l s) = launchButton s"
  "gridDisabled (setLanguage l s) = gridDisabled s"
  "rocketDisabled (setLanguage l s) = rocketDisabled s"
  "alerts (setLanguage l s) = alerts s"
  "selectionHidden (setLanguage l s) = selectionHidden s"
  "translationsCache (setLanguage l s) = translationsCache s"
  "rocketLaunching (setLanguage l s) = rocketLaunching s"
  "wordcloudHidden (setLanguage l s) = wordcloudHidden s"
  by (simp_all add: setLanguage_def Let_def setLanguage_loaded_frame fetch_def)

text \<open>The invariant reads the state through these fields only.\<close>

lemma ctl_inv_cong:
  assumes "selectedItems t = selectedItems s" "timers t = timers s"
    "nextTimer t = nextTimer s" "(launch t = NotRunning) = (launch s = NotRunning)"
    "isWordcloudVisible t = isWordcloudVisible s"
    "wordcloudReturnTimer t = wordcloudReturnTimer s" "pathname t = pathname s"
    "unloaded t = unloaded s" "launchButton t = launchButton s"
    "gridDisabled t = gridDisabled s" "rocketDisabled t = rocketDisabled s"
  shows "ctl_inv t = ctl_inv s"
  unfolding ctl_inv_def timers_fresh_def page_inv_def phase_inv_def locked_def
    control_timers_def isWordcloudPage_def
  by (simp only: assms)

lemma ctl_inv_setLanguage: "ctl_inv (setLanguage l s) = ctl_inv s"
  by (rule ctl_inv_cong) (simp_all add: setLanguage_frame)

lemma init_view:
  "selectedItems (init stored path) = []"
  "timers (init stored path) = []"
  "launch (init stored path) = NotRunning"
  "isWordcloudVisible (init stored path) = False"
  "unloaded (init stored path) = False"
  "pathname (init stored path) = path"
  "launchButton (init stored path) = (if path = ''/wordcloud'' then None else Some True)"
  "gridDisabled (init stored path) = False"
  "rocketDisabled (init stored path) = False"
  "alerts (init stored path) = []"
  "wordcloudReturnTimer (init stored path) = None"
  "translationsCache (init stored path) = []"
  by (simp_all add: init_def Let_def setLanguage_frame isWordcloudPage_def pageTemplate_def
      updateWordcloudImage_def loadWordcloudImage_def updateLaunchButtonState_nf fetch_def)

lemma ctl_inv_init: "ctl_inv (init stored path)"
  by (simp add: ctl_inv_def sel_inv_def timers_fresh_def page_inv_def phase_inv_def
      control_timers_def isWordcloudPage_def init_view)


subsection \<open>Timers\<close>

lemma control_timers_clearTimeout:
  "control_timers (clearTimeout t s) = filter (\<lambda>x. fst x \<noteq> t) (control_timers s)"
proof -
  have "filter (\<lambda>x. snd x \<noteq> LaunchFallback) (filter (\<lambda>(i, a). i \<noteq> t) xs) =
        filter (\<lambda>x. fst x \<noteq> t) (filter (\<lambda>x. snd x \<noteq> LaunchFallback) xs)" for xs
    by (induction xs) auto
  then show ?thesis by (simp add: control_timers_def clearTimeout_def)
qed

lemma control_timers_setTimeout:
  "control_timers (setTimeout a s) =
     control_timers s @ (if a = LaunchFallback then [] else [(nextTimer s, a)])"
  by (simp add: control_timers_def setTimeout_def)

lemma timers_fresh_clearTimeout: "timers_fresh s \<Longrightarrow> timers_fresh (clearTimeout t s)"
  by (simp add: timers_fresh_def clearTimeout_def list_all_iff distinct_map_filter)

lemma timers_fresh_setTimeout:
  assumes "timers_fresh s"
  shows "timers_fresh (setTimeout a s)"
proof -
  have lt: "\<forall>x\<in>set (timers s). fst x < nextTimer s"
    using assms by (simp add: timers_fresh_def list_all_iff)
  then have "nextTimer s \<notin> fst ` set (timers s)" by auto
  moreover have "\<forall>x\<in>set (timers s). fst x < Suc (nextTimer s)" using lt by auto
  ultimately show ?thesis
    using assms by (simp add: timers_fresh_def setTimeout_def list_all_iff)
qed

lemma fired_control:
  assumes "map_of (timers s) t = Some a" "a \<noteq> LaunchFallback"
  shows "(t, a) \<in> set (control_timers s)"
  using map_of_SomeD [OF assms(1)] assms(2) by (simp add: control_timers_def)

lemma fired_fallback:
  assumes "timers_fresh s" "map_of (timers s) t = Some LaunchFallback"
  shows "filter (\<lambda>x. fst x \<noteq> t) (control_timers s) = control_timers s"
proof -
  have d: "distinct (map fst (timers s))" using assms(1) by (simp add: timers_fresh_def)
  have "fst x \<noteq> t" if x: "x \<in> set (control_timers s)" for x
  proof
    assume e: "fst x = t"
    from x have m: "x \<in> set (timers s)" and nl: "snd x \<noteq> LaunchFallback"
      by (simp_all add: control_timers_def)
    from m e have "(t, snd x) \<in> set (timers s)" by (metis prod.collapse)
    with d have "map_of (timers s) t = Some (snd x)" by (rule map_of_is_SomeI)
    with assms(2) nl show False by simp
  qed
  then show ?thesis by (simp add: filter_id_conv)
qed


subsection \<open>Each handler keeps the invariant\<close>

lemma idle_unlocked:
  assumes "ctl_inv s" "\<not> locked s"
  shows "\<not> isWordcloudVisible s" "launch s = NotRunning" "control_timers s = []"
    "wordcloudReturnTimer s = None"
  using assms by (auto simp: ctl_inv_def phase_inv_def split: if_splits)

lemma ctl_inv_select:
  assumes "ctl_inv s" "\<not> locked s" "sel_inv sel"
  shows "ctl_inv (updateLaunchButtonState (s\<lparr>selectedItems := sel\<rparr>))"
proof -
  note idle = idle_unlocked [OF assms(1,2)]
  have "page_inv s" "timers_fresh s" using assms(1) by (simp_all add: ctl_inv_def)
  then show ?thesis
    using assms(3) idle unfolding updateLaunchButtonState_nf
    by (simp add: ctl_inv_def phase_inv_def page_inv_def timers_fresh_def control_timers_def
        isWordcloudPage_def)
qed

lemma handleGridItemClick_nf:
  "handleGridItemClick b s =
     updateLaunchButtonState (s\<lparr>selectedItems := selectedItems (handleGridItemClick b s)\<rparr>)"
  by (simp add: handleGridItemClick_def Let_def updateGridStates_def)

lemma handleRocketBlockClick_nf:
  "handleRocketBlockClick ri s = s \<or> handleRocketBlockClick ri s =
     updateLaunchButtonState (s\<lparr>selectedItems := selectedItems (handleRocketBlockClick ri s)\<rparr>)"
  by (simp add: handleRocketBlockClick_def Let_def updateGridStates_def)

lemma ctl_inv_handleGridItemClick:
  assumes "ctl_inv s" "\<not> gridDisabled s"
  shows "ctl_inv (handleGridItemClick b s)"
proof -
  have "sel_inv (selectedItems (handleGridItemClick b s))"
    using assms(1) by (intro sel_inv_handleGridItemClick) (simp add: ctl_inv_def)
  moreover have "\<not> locked s" using assms(2) by (simp add: locked_def)
  ultimately have "ctl_inv (updateLaunchButtonState
      (s\<lparr>selectedItems := selectedItems (handleGridItemClick b s)\<rparr>))"
    using assms(1) by (intro ctl_inv_select) simp_all
  then show ?thesis using handleGridItemClick_nf [of b s] by simp
qed

lemma ctl_inv_handleRocketBlockClick:
  assumes "ctl_inv s" "\<not> rocketDisabled s"
  shows "ctl_inv (handleRocketBlockClick ri s)"
proof -
  have "sel_inv (selectedItems (handleRocketBlockClick ri s))"
    using assms(1) by (intro sel_inv_handleRocketBlockClick) (simp add: ctl_inv_def)
  moreover have "\<not> locked s" using assms(2) by (simp add: locked_def)
  ultimately have "ctl_inv (updateLaunchButtonState
      (s\<lparr>selectedItems := selectedItems (handleRocketBlockClick ri s)\<rparr>))"
    using assms(1) by (intro ctl_inv_select) simp_all
  then show ?thesis using handleRocketBlockClick_nf [of ri s] assms(1) by auto
qed

lemma handleLaunchButtonClick_nf:
  assumes "length (selectedItems s) = 3"
  shows "handleLaunchButtonClick s =
     s\<lparr>launchButton := map_option (\<lambda>d. True) (launchButton s),
       gridDisabled := True, rocketDisabled := True,
       requests := requests s @
         [(nextRequest s, PreviewWordcloud (map key (selectedItems s)) (currentLanguage s))],
       nextRequest := Suc (nextRequest s),
       rocketLaunching := True,
       timers := timers s @ [(nextTimer s, LaunchFallback)],
       nextTimer := Suc (nextTimer s),
       launch := AwaitAnimation (map key (selectedItems s)) (nextTimer s)
                   (Pending (nextRequest s))\<rparr>"
  using assms
  by (cases "launchButton s")
    (simp_all add: handleLaunchButtonClick_def Let_def setLaunchInteractionDisabled_def
      fetch_def playRocketLaunchAnimation_def setTimeout_def)

lemma ctl_inv_handleLaunchButtonClick:
  assumes "ctl_inv s" "launchButton s = Some False"
  shows "ctl_inv (handleLaunchButtonClick s)"
proof (cases "length (selectedItems s) = 3")
  case False
  then show ?thesis using assms(1) by (simp add: handleLaunchButtonClick_def)
next
  case True
  have nl: "\<not> locked s" using assms(2) by (simp add: locked_def)
  note idle = idle_unlocked [OF assms(1) nl]
  have p: "page_inv s" and f: "timers_fresh s" and sel: "sel_inv (selectedItems s)"
    using assms(1) by (simp_all add: ctl_inv_def)
  have f': "timers_fresh (setTimeout LaunchFallback s)" using f by (rule timers_fresh_setTimeout)
  show ?thesis
    unfolding handleLaunchButtonClick_nf [OF True]
    using p f' sel idle True assms(2)
    by (simp add: ctl_inv_def phase_inv_def page_inv_def timers_fresh_def control_timers_def
        isWordcloudPage_def locked_def setTimeout_def)
qed

lemma returnToSelection_nf:
  assumes "isWordcloudVisible s" "wordcloudReturnTimer s = Some t"
  shows "returnToSelection s =
           setTimeout FadeOutDone
             ((clearTimeout t s)\<lparr>wordcloudReturnTimer := None, isWordcloudVisible := False\<rparr>)"
  using assms by (simp add: returnToSelection_def Let_def clearReturnTimer_def)

lemma ctl_inv_returnToSelection:
  assumes "ctl_inv s"
  shows "ctl_inv (returnToSelection s)"
proof (cases "isWordcloudVisible s")
  case False
  then show ?thesis using assms by (simp add: returnToSelection_def)
next
  case True
  with assms obtain t where t: "wordcloudReturnTimer s = Some t"
    "control_timers s = [(t, AutoReturn)]" and l: "locked s" "launch s = NotRunning"
    by (auto simp: ctl_inv_def phase_inv_def)
  let ?c = "(clearTimeout t s)\<lparr>wordcloudReturnTimer := None, isWordcloudVisible := False\<rparr>"
  have p: "page_inv s" and f: "timers_fresh s" and sel: "sel_inv (selectedItems s)"
    using assms(1) by (simp_all add: ctl_inv_def)
  have "timers_fresh (clearTimeout t s)" using f by (rule timers_fresh_clearTimeout)
  then have "timers_fresh ?c" by (simp add: timers_fresh_def)
  then have f': "timers_fresh (setTimeout FadeOutDone ?c)" by (rule timers_fresh_setTimeout)
  have "control_timers ?c = control_timers (clearTimeout t s)" by (simp add: control_timers_def)
  then have c: "control_timers ?c = []" using t(2) by (simp add: control_timers_clearTimeout)
  have c': "control_timers (setTimeout FadeOutDone ?c) = [(nextTimer s, FadeOutDone)]"
    by (simp add: control_timers_setTimeout c) (simp add: clearTimeout_def)
  have v: "selectedItems (setTimeout FadeOutDone ?c) = selectedItems s"
    "launch (setTimeout FadeOutDone ?c) = launch s"
    "isWordcloudVisible (setTimeout FadeOutDone ?c) = False"
    "wordcloudReturnTimer (setTimeout FadeOutDone ?c) = None"
    "pathname (setTimeout FadeOutDone ?c) = pathname s"
    "unloaded (setTimeout FadeOutDone ?c) = unloaded s"
    "launchButton (setTimeout FadeOutDone ?c) = launchButton s"
    "gridDisabled (setTimeout FadeOutDone ?c) = gridDisabled s"
    "rocketDisabled (setTimeout FadeOutDone ?c) = rocketDisabled s"
    by (simp_all add: setTimeout_def clearTimeout_def)
  show ?thesis
    unfolding returnToSelection_nf [OF True t(1)]
    using p f' sel l
    by (simp add: ctl_inv_def phase_inv_def page_inv_def isWordcloudPage_def locked_def v c')
qed


lemma transitioning:
  assumes "ctl_inv s" "launch s \<noteq> NotRunning"
  shows "\<not> isWordcloudVisible s" "locked s" "control_timers s = []"
    "wordcloudReturnTimer s = None"
  using assms by (auto simp: ctl_inv_def phase_inv_def split: if_splits)

lemma running:
  assumes "ctl_inv s" "launch s \<noteq> NotRunning"
  shows "launchButton s = Some True" "gridDisabled s" "rocketDisabled s"
    "length (selectedItems s) = 3" "\<not> isWordcloudPage s" "\<not> unloaded s"
proof -
  from transitioning(2) [OF assms]
  show l: "launchButton s = Some True" and "gridDisabled s" and "rocketDisabled s"
    and "length (selectedItems s) = 3" by (simp_all add: locked_def)
  then show p: "\<not> isWordcloudPage s" using assms(1) by (auto simp: ctl_inv_def page_inv_def)
  then show "\<not> unloaded s" using assms(1) by (auto simp: ctl_inv_def page_inv_def)
qed

lemma ctl_inv_launchAnimated:
  assumes "ctl_inv s" "launch s \<noteq> NotRunning"
  shows "ctl_inv (launchAnimated ks p s)"
proof -
  have "ctl_inv (launchAnimated ks p s) = ctl_inv s"
    using assms(2) by (intro ctl_inv_cong) (simp_all add: launchAnimated_def fetch_def)
  with assms(1) show ?thesis by simp
qed

lemma ctl_inv_launchPrecomputed:
  assumes "ctl_inv s" "launch s \<noteq> NotRunning"
  shows "ctl_inv (launchPrecomputed s)"
proof -
  have "ctl_inv (launchPrecomputed s) = ctl_inv s"
    using assms(2) by (intro ctl_inv_cong) (simp_all add: launchPrecomputed_def fetch_def)
  with assms(1) show ?thesis by simp
qed

lemma ctl_inv_launchCommitted:
  assumes "ctl_inv s" "launch s \<noteq> NotRunning"
  shows "ctl_inv (launchCommitted s)"
proof -
  have "ctl_inv (launchCommitted s) = ctl_inv s"
    using assms(2)
    by (intro ctl_inv_cong)
      (simp_all add: launchCommitted_def showWordcloudView_def loadWordcloudImage_def Let_def)
  with assms(1) show ?thesis by simp
qed

lemma ctl_inv_relaunch:
  assumes "ctl_inv s" "launch s \<noteq> NotRunning" "pc \<noteq> NotRunning"
  shows "ctl_inv (s\<lparr>launch := pc\<rparr>)"
proof -
  have "ctl_inv (s\<lparr>launch := pc\<rparr>) = ctl_inv s"
    using assms(2,3) by (intro ctl_inv_cong) simp_all
  with assms(1) show ?thesis by simp
qed

lemma launchFailed_nf:
  "launchFailed s =
     s\<lparr>alerts := alerts s @ [''Failed to submit vote. Please try again.''],
       launchButton := map_option (\<lambda>d. False) (launchButton s),
       rocketLaunching := False, gridDisabled := False, rocketDisabled := False,
       launch := NotRunning\<rparr>"
  by (cases "launchButton s")
    (simp_all add: launchFailed_def Let_def setLaunchInteractionDisabled_def)

lemma ctl_inv_launchFailed:
  assumes "ctl_inv s" "launch s \<noteq> NotRunning"
  shows "ctl_inv (launchFailed s)"
proof -
  note tr = transitioning [OF assms]
  have p: "page_inv s" and f: "timers_fresh s" and sel: "sel_inv (selectedItems s)"
    using assms(1) by (simp_all add: ctl_inv_def)
  show ?thesis
    unfolding launchFailed_nf using p f sel tr
    by (simp add: ctl_inv_def phase_inv_def page_inv_def timers_fresh_def control_timers_def
        isWordcloudPage_def)
qed

lemma showWordcloudView_loaded_nf:
  assumes "wordcloudReturnTimer s = None"
  shows "showWordcloudView_loaded s =
     s\<lparr>selectionHidden := True, wordcloudHidden := False, isWordcloudVisible := True,
       timers := timers s @ [(nextTimer s, AutoReturn)], nextTimer := Suc (nextTimer s),
       wordcloudReturnTimer := Some (nextTimer s)\<rparr>"
  using assms
  by (simp add: showWordcloudView_loaded_def Let_def clearReturnTimer_def
      AUTO_RETURN_ENABLED_def setTimeout_def)

lemma ctl_inv_imageLoaded:
  assumes "ctl_inv s" "launch s \<noteq> NotRunning"
  shows "ctl_inv ((showWordcloudView_loaded s)\<lparr>launch := NotRunning\<rparr>)"
proof -
  note tr = transitioning [OF assms]
  have p: "page_inv s" and f: "timers_fresh s" and sel: "sel_inv (selectedItems s)"
    using assms(1) by (simp_all add: ctl_inv_def)
  have f': "timers_fresh (setTimeout AutoReturn s)" using f by (rule timers_fresh_setTimeout)
  show ?thesis
    unfolding showWordcloudView_loaded_nf [OF tr(4)] using p f' sel tr
    by (simp add: ctl_inv_def phase_inv_def page_inv_def timers_fresh_def control_timers_def
        isWordcloudPage_def locked_def setTimeout_def)
qed

lemma ctl_inv_imageSettled:
  assumes "ctl_inv s"
  shows "ctl_inv (imageSettled loaded s)"
  using assms
  by (cases "launch s")
    (simp_all add: imageSettled_def ctl_inv_imageLoaded ctl_inv_launchFailed)

lemma ctl_inv_animationEnded:
  assumes "ctl_inv s"
  shows "ctl_inv (animationEnded s)"
  using assms by (cases "launch s") (simp_all add: animationEnded_def ctl_inv_launchAnimated)

lemma ctl_inv_launchVoted:
  assumes "ctl_inv s" "launch s \<noteq> NotRunning"
  shows "ctl_inv (launchVoted out p s)"
  using assms
  by (cases out; cases p)
    (simp_all add: launchVoted_def ctl_inv_launchFailed ctl_inv_launchPrecomputed
      ctl_inv_relaunch)

lemma ctl_inv_launchSettled:
  assumes "ctl_inv s"
  shows "ctl_inv (launchSettled rid out s)"
proof (cases "launch s")
  case NotRunning
  then show ?thesis using assms by (simp add: launchSettled_def)
next
  case (AwaitAnimation ks t p)
  then show ?thesis using assms by (simp add: launchSettled_def ctl_inv_relaunch)
next
  case (AwaitVote vid p)
  then show ?thesis
    using assms by (simp add: launchSettled_def ctl_inv_relaunch ctl_inv_launchVoted)
next
  case (AwaitPrecompute pid)
  then show ?thesis
    using assms
    by (cases out)
      (simp_all add: launchSettled_def settle_def ctl_inv_launchPrecomputed
        ctl_inv_launchFailed)
next
  case (AwaitCommit cid)
  then show ?thesis using assms by (simp add: launchSettled_def ctl_inv_launchCommitted)
next
  case AwaitImage
  then show ?thesis using assms by (simp add: launchSettled_def)
qed

lemma ctl_inv_resumeLanguage: "ctl_inv (resumeLanguage out langs s) = ctl_inv s"
proof (induction langs arbitrary: s)
  case Nil
  show ?case by simp
next
  case (Cons l langs)
  have "ctl_inv (setLanguage_loaded l (s\<lparr>translationsCache := l # translationsCache s\<rparr>)) =
        ctl_inv s"
    by (rule ctl_inv_cong) (simp_all add: setLanguage_loaded_frame)
  then show ?case using Cons by (cases out) simp_all
qed

lemma ctl_inv_translationsSettled: "ctl_inv (translationsSettled rid out s) = ctl_inv s"
proof -
  have "ctl_inv (s\<lparr>awaitingTranslations := a\<rparr>) = ctl_inv s" for a
    by (rule ctl_inv_cong) simp_all
  then show ?thesis by (simp add: translationsSettled_def ctl_inv_resumeLanguage)
qed


lemma clearTimeout_idem: "clearTimeout t (clearTimeout t s) = clearTimeout t s"
  by (simp add: clearTimeout_def)

lemma returnToSelection_clearTimeout:
  assumes "isWordcloudVisible s" "wordcloudReturnTimer s = Some t"
  shows "returnToSelection (clearTimeout t s) = returnToSelection s"
proof -
  have v: "isWordcloudVisible (clearTimeout t s)" "wordcloudReturnTimer (clearTimeout t s) = Some t"
    using assms by (simp_all add: clearTimeout_def)
  show ?thesis
    unfolding returnToSelection_nf [OF v] returnToSelection_nf [OF assms] clearTimeout_idem ..
qed

lemma returnToSelection_faded_nf:
  "returnToSelection_faded s =
     s\<lparr>wordcloudHidden := True, selectionHidden := False, rocketLaunching := False,
       selectedItems := [], launchButton := map_option (\<lambda>d. False) (launchButton s),
       gridDisabled := False, rocketDisabled := False\<rparr>"
  by (cases "launchButton s")
    (simp_all add: returnToSelection_faded_def Let_def updateGridStates_def
      updateLaunchButtonState_nf setLaunchInteractionDisabled_def)

lemma singleton_member: "x \<in> set xs \<Longrightarrow> xs = [y] \<Longrightarrow> x = y"
  by simp

lemma ctl_inv_timerFired:
  assumes "ctl_inv s"
  shows "ctl_inv (timerFired t s)"
proof (cases "map_of (timers s) t")
  case None
  then show ?thesis using assms by (simp add: timerFired_def)
next
  case (Some a)
  have p: "page_inv s" and f: "timers_fresh s" and sel: "sel_inv (selectedItems s)"
    and ph: "phase_inv s"
    using assms(1) by (simp_all add: ctl_inv_def)
  have f1: "timers_fresh (clearTimeout t s)" using f by (rule timers_fresh_clearTimeout)
  show ?thesis
  proof (cases a)
    case AutoReturn
    have m: "(t, AutoReturn) \<in> set (control_timers s)"
      using Some AutoReturn by (intro fired_control) simp_all
    have vis: "isWordcloudVisible s"
    proof (rule ccontr)
      assume "\<not> isWordcloudVisible s"
      with ph m show False by (auto simp: phase_inv_def split: if_splits)
    qed
    with ph obtain t' where t': "wordcloudReturnTimer s = Some t'"
      "control_timers s = [(t', AutoReturn)]" by (auto simp: phase_inv_def)
    from singleton_member [OF m t'(2)] have "t' = t" by simp
    with t' have w: "wordcloudReturnTimer s = Some t" by simp
    have "timerFired t s = returnToSelection s"
      using Some AutoReturn returnToSelection_clearTimeout [OF vis w]
      by (simp add: timerFired_def)
    then show ?thesis using assms by (simp add: ctl_inv_returnToSelection)
  next
    case FadeOutDone
    have m: "(t, FadeOutDone) \<in> set (control_timers s)"
      using Some FadeOutDone by (intro fired_control) simp_all
    have nv: "\<not> isWordcloudVisible s"
    proof
      assume "isWordcloudVisible s"
      with ph m show False by (auto simp: phase_inv_def)
    qed
    have nr: "launch s = NotRunning"
    proof (rule ccontr)
      assume "launch s \<noteq> NotRunning"
      with ph nv m show False by (auto simp: phase_inv_def)
    qed
    from ph nv nr m obtain f' where f': "control_timers s = [(f', FadeOutDone)]"
      and w: "wordcloudReturnTimer s = None"
      by (auto simp: phase_inv_def)
    from singleton_member [OF m f'] have "f' = t" by simp
    with f' have c: "control_timers (clearTimeout t s) = []"
      by (simp add: control_timers_clearTimeout)
    have eq: "timerFired t s = returnToSelection_faded (clearTimeout t s)"
      using Some FadeOutDone by (simp add: timerFired_def)
    have c': "control_timers (returnToSelection_faded (clearTimeout t s)) = []"
      using c unfolding returnToSelection_faded_nf by (simp add: control_timers_def)
    have f2: "timers_fresh (returnToSelection_faded (clearTimeout t s))"
      using f1 unfolding returnToSelection_faded_nf by (simp add: timers_fresh_def)
    show ?thesis
      unfolding eq ctl_inv_def using c' f2
      unfolding returnToSelection_faded_nf
      using p nv nr w
      by (simp add: phase_inv_def page_inv_def isWordcloudPage_def sel_inv_def
          clearTimeout_def)
  next
    case LaunchFallback
    have c: "control_timers (clearTimeout t s) = control_timers s"
      using fired_fallback [OF f] Some LaunchFallback
      by (simp add: control_timers_clearTimeout)
    have fr: "isWordcloudVisible (clearTimeout t s) = isWordcloudVisible s"
      "launch (clearTimeout t s) = launch s"
      "wordcloudReturnTimer (clearTimeout t s) = wordcloudReturnTimer s"
      "locked (clearTimeout t s) = locked s"
      "page_inv (clearTimeout t s) = page_inv s"
      "selectedItems (clearTimeout t s) = selectedItems s"
      by (simp_all add: clearTimeout_def locked_def page_inv_def isWordcloudPage_def)
    have "phase_inv (clearTimeout t s) = phase_inv s"
      by (simp only: phase_inv_def fr c)
    then have i1: "ctl_inv (clearTimeout t s)"
      using sel f1 p ph by (simp only: ctl_inv_def fr simp_thms)
    have "ctl_inv (launchFallback t (clearTimeout t s))"
      using i1
      by (cases "launch (clearTimeout t s)")
        (simp_all add: launchFallback_def ctl_inv_launchAnimated)
    then show ?thesis using Some LaunchFallback by (simp add: timerFired_def)
  qed
qed

lemma ctl_inv_step:
  assumes "ctl_inv s"
  shows "ctl_inv (step e s)"
proof (cases "unloaded s")
  case True
  then show ?thesis using assms by (simp add: step_def)
next
  case False
  show ?thesis
  proof (cases e)
    case (GridClick b)
    then show ?thesis
      using assms False by (simp add: step_def receivesClick_def ctl_inv_handleGridItemClick)
  next
    case (RocketClick ri)
    then show ?thesis
      using assms False by (simp add: step_def receivesClick_def ctl_inv_handleRocketBlockClick)
  next
    case LaunchClick
    then show ?thesis
      using assms False
      by (cases "launchButton s") (simp_all add: step_def ctl_inv_handleLaunchButtonClick)
  next
    case (LangClick lang)
    then show ?thesis using assms False by (simp add: step_def ctl_inv_setLanguage)
  next
    case BackClick
    have fr: "phase_inv (s\<lparr>unloaded := True\<rparr>) = phase_inv s"
      "timers_fresh (s\<lparr>unloaded := True\<rparr>) = timers_fresh s"
      "selectedItems (s\<lparr>unloaded := True\<rparr>) = selectedItems s"
      by (simp_all add: phase_inv_def locked_def control_timers_def timers_fresh_def)
    have "page_inv (s\<lparr>unloaded := True\<rparr>)" if "isWordcloudPage s"
      using assms that by (simp add: ctl_inv_def page_inv_def isWordcloudPage_def)
    then have "ctl_inv (s\<lparr>unloaded := True\<rparr>)" if "isWordcloudPage s"
      using assms that by (simp only: ctl_inv_def fr simp_thms)
    then show ?thesis
      using BackClick assms False by (simp add: step_def ctl_inv_returnToSelection)
  next
    case (TimerFire t)
    then show ?thesis using assms False by (simp add: step_def ctl_inv_timerFired)
  next
    case AnimationEnd
    then show ?thesis using assms False by (simp add: step_def ctl_inv_animationEnded)
  next
    case (Response rid out)
    then show ?thesis
      using assms False
      by (simp add: step_def ctl_inv_translationsSettled ctl_inv_launchSettled)
  next
    case (ImageLoad loaded)
    then show ?thesis using assms False by (simp add: step_def ctl_inv_imageSettled)
  qed
qed

lemma ctl_inv_run: "ctl_inv s \<Longrightarrow> ctl_inv (run evs s)"
  by (induction evs arbitrary: s) (simp_all add: ctl_inv_step)

lemma ctl_inv_reachable: "ctl_inv (run evs (init stored path))"
  by (rule ctl_inv_run) (rule ctl_inv_init)


subsection \<open>Selection\<close>

lemma updateGridStates_idem: "updateGridStates (updateGridStates s) = updateGridStates s"
  by (simp add: updateGridStates_def updateLaunchButtonState_def Let_def split: option.splits)

lemma updateGridStates_handleGridItemClick:
  "updateGridStates (handleGridItemClick b s) = handleGridItemClick b s"
  by (simp add: handleGridItemClick_def Let_def updateGridStates_idem)

lemma toggleItems_settled:
  "toggleItems bs s = s \<or> updateGridStates (toggleItems bs s) = toggleItems bs s"
proof (induction bs arbitrary: s)
  case Nil
  show ?case by simp
next
  case (Cons b bs)
  from Cons [of "handleGridItemClick b s"] show ?case
    by (auto simp: updateGridStates_handleGridItemClick)
qed

lemma handleGridItemClick_full:
  assumes "dataset_key b \<notin> key ` set (selectedItems s)" "\<not> length (selectedItems s) < 3"
  shows "handleGridItemClick b s = updateGridStates s"
proof -
  have "findIndex (\<lambda>it. key it = dataset_key b) (selectedItems s) = - 1"
    unfolding findIndex_none using assms(1) by (metis imageI)
  then show ?thesis using assms(2) by (simp add: handleGridItemClick_def Let_def)
qed


subsection \<open>Sample runs\<close>

lemma init_sample: "init None ''/'' = sample_page [] True"
  by (simp add: init_def sample_page_def Let_def setLanguage_def fetch_def isWordcloudPage_def
      pageTemplate_def updateLaunchButtonState_def)

lemma nextRocketIndex_eval:
  "nextRocketIndex [] 0 = 0" "nextRocketIndex [0] 0 = Suc 0"
  "nextRocketIndex [0, Suc 0] 0 = 2" "nextRocketIndex [Suc 0, 2] 0 = 0"
  "nextRocketIndex [0, 2] 0 = Suc 0"
  by (simp_all add: nextRocketIndex.simps)

lemma run_sample_picked:
  "run [GridClick btn_food, GridClick btn_music, GridClick btn_book] (init None ''/'') =
     sample_page sample_picked False"
  by (simp add: init_sample sample_page_def sample_picked_def step_def receivesClick_def
      handleGridItemClick_def Let_def updateGridStates_def updateLaunchButtonState_def
      nextRocketIndex_eval btn_food_def btn_music_def btn_book_def)

lemma sel_inv_reachable: "sel_inv (selectedItems (run evs (init stored path)))"
  using ctl_inv_reachable [of evs stored path] by (simp add: ctl_inv_def)

lemma nextRocketIndex_least:
  assumes "distinct u" "\<forall>x\<in>set u. x < (3::nat)" "length u < 3"
    "r \<notin> set u" "\<forall>j<r. j \<in> set u"
  shows "nextRocketIndex u 0 = r"
proof -
  let ?n = "nextRocketIndex u 0"
  have n3: "?n < 3" by (rule nextRocketIndex_free [OF assms(1-3)])
  have spec: "?n \<notin> set u \<or> 3 \<le> ?n" "\<forall>j. 0 \<le> j \<and> j < ?n \<longrightarrow> j \<in> set u"
    using nextRocketIndex_spec [of 0 u] by blast+
  have "\<not> r < ?n" using spec(2) assms(4) by auto
  moreover have "\<not> ?n < r" using spec(1) n3 assms(5) by auto
  ultimately show ?thesis by simp
qed

subsection \<open>Before the first launch\<close>

lemma run_append: "run (xs @ ys) s = run ys (run xs s)"
  by (induction xs arbitrary: s) simp_all

lemma run_snoc: "run (xs @ [e]) s = step e (run xs s)"
  by (simp add: run_append)

lemma step_sample_launched: "step LaunchClick (sample_page sample_picked False) = sample_launched"
  by (simp add: sample_launched_def sample_page_def sample_picked_def step_def
      handleLaunchButtonClick_def Let_def setLaunchInteractionDisabled_def fetch_def
      playRocketLaunchAnimation_def setTimeout_def)

lemma run_sample_launched:
  "run [GridClick btn_food, GridClick btn_music, GridClick btn_book, LaunchClick]
     (init None ''/'') = sample_launched"
  using run_snoc [of "[GridClick btn_food, GridClick btn_music, GridClick btn_book]" LaunchClick
      "init None ''/''"]
  by (simp only: run_sample_picked step_sample_launched append.simps)

lemma resumeLanguage_frame:
  "selectedItems (resumeLanguage out langs s) = selectedItems s"
  "timers (resumeLanguage out langs s) = timers s"
  "launch (resumeLanguage out langs s) = launch s"
  "isWordcloudVisible (resumeLanguage out langs s) = isWordcloudVisible s"
  "pathname (resumeLanguage out langs s) = pathname s"
  "unloaded (resumeLanguage out langs s) = unloaded s"
  "launchButton (resumeLanguage out langs s) = launchButton s"
  "alerts (resumeLanguage out langs s) = alerts s"
  "requests (resumeLanguage out langs s) = requests s"
  "nextRequest (resumeLanguage out langs s) = nextRequest s"
  "gridDisabled (resumeLanguage out langs s) = gridDisabled s"
  "rocketDisabled (resumeLanguage out langs s) = rocketDisabled s"
  "rocketLaunching (resumeLanguage out langs s) = rocketLaunching s"
  "selectionHidden (resumeLanguage out langs s) = selectionHidden s"
  "wordcloudHidden (resumeLanguage out langs s) = wordcloudHidden s"
  by (induction langs arbitrary: s; cases out; simp add: setLanguage_loaded_frame)+

lemma translationsSettled_frame:
  "selectedItems (translationsSettled rid out s) = selectedItems s"
  "timers (translationsSettled rid out s) = timers s"
  "launch (translationsSettled rid out s) = launch s"
  "isWordcloudVisible (translationsSettled rid out s) = isWordcloudVisible s"
  "pathname (translationsSettled rid out s) = pathname s"
  "unloaded (translationsSettled rid out s) = unloaded s"
  "launchButton (translationsSettled rid out s) = launchButton s"
  "alerts (translationsSettled rid out s) = alerts s"
  "requests (translationsSettled rid out s) = requests s"
  "nextRequest (translationsSettled rid out s) = nextRequest s"
  "gridDisabled (translationsSettled rid out s) = gridDisabled s"
  "rocketDisabled (translationsSettled rid out s) = rocketDisabled s"
  "rocketLaunching (translationsSettled rid out s) = rocketLaunching s"
  "selectionHidden (translationsSettled rid out s) = selectionHidden s"
  "wordcloudHidden (translationsSettled rid out s) = wordcloudHidden s"
  by (simp_all add: translationsSettled_def resumeLanguage_frame)

lemma quiet_select:
  assumes "quiet path s"
  shows "quiet path (updateLaunchButtonState (s\<lparr>selectedItems := sel\<rparr>))"
  using assms unfolding updateLaunchButtonState_nf by (simp add: quiet_def)

lemma quiet_step:
  assumes "quiet path s" "path \<noteq> ''/wordcloud''" "e \<noteq> LaunchClick"
  shows "quiet path (step e s)"
proof (cases e)
  case (GridClick b)
  have "quiet path (handleGridItemClick b s)"
    by (subst handleGridItemClick_nf) (rule quiet_select [OF assms(1)])
  then show ?thesis using GridClick assms(1) by (simp add: step_def)
next
  case (RocketClick ri)
  have "quiet path (handleRocketBlockClick ri s)"
  proof (cases "handleRocketBlockClick ri s = s")
    case True
    then show ?thesis using assms(1) by simp
  next
    case False
    with handleRocketBlockClick_nf [of ri s]
    have "handleRocketBlockClick ri s = updateLaunchButtonState
        (s\<lparr>selectedItems := selectedItems (handleRocketBlockClick ri s)\<rparr>)" by simp
    then show ?thesis by (subst \<open>handleRocketBlockClick ri s = _\<close>) (rule quiet_select [OF assms(1)])
  qed
  then show ?thesis using RocketClick assms(1) by (simp add: step_def)
next
  case LaunchClick
  with assms(3) show ?thesis by simp
next
  case (LangClick lang)
  then show ?thesis using assms(1) by (simp add: step_def quiet_def setLanguage_frame)
next
  case BackClick
  then show ?thesis
    using assms(1,2) by (simp add: step_def quiet_def isWordcloudPage_def returnToSelection_def)
next
  case (TimerFire t)
  then show ?thesis using assms(1) by (simp add: step_def quiet_def timerFired_def)
next
  case AnimationEnd
  then show ?thesis using assms(1) by (simp add: step_def quiet_def animationEnded_def)
next
  case (Response rid out)
  have "launchSettled rid out s = s" using assms(1) by (simp add: quiet_def launchSettled_def)
  then show ?thesis
    using Response assms(1) by (simp add: step_def quiet_def translationsSettled_frame)
next
  case (ImageLoad loaded)
  then show ?thesis using assms(1) by (simp add: step_def quiet_def imageSettled_def)
qed

lemma quiet_run:
  assumes "quiet path s" "path \<noteq> ''/wordcloud''" "LaunchClick \<notin> set evs"
  shows "quiet path (run evs s)"
  using assms
proof (induction evs arbitrary: s)
  case Nil
  then show ?case by simp
next
  case (Cons e evs)
  from Cons.prems(3) have ne: "e \<noteq> LaunchClick" and rest: "LaunchClick \<notin> set evs" by auto
  have "quiet path (step e s)" by (rule quiet_step [OF Cons.prems(1,2) ne])
  from Cons.IH [OF this Cons.prems(2) rest] show ?case by simp
qed

lemma quiet_init: "path \<noteq> ''/wordcloud'' \<Longrightarrow> quiet path (init stored path)"
  by (simp add: quiet_def init_view)

lemma keys_card:
  assumes "sel_inv sel"
  shows "(length sel = 3) = (card (key ` set sel) = 3)"
proof -
  have "distinct (map key sel)" using assms by (simp add: sel_inv_def)
  then have "card (set (map key sel)) = length (map key sel)" by (rule distinct_card)
  then show ?thesis by simp
qed

subsection \<open>During the launch animation\<close>

lemma requests_setLanguage:
  "requests (setLanguage l s) = requests s \<or>
   requests (setLanguage l s) = requests s @ [(nextRequest s, GetTranslations l)]"
  by (simp add: setLanguage_def Let_def setLanguage_loaded_frame fetch_def)

lemma only_fallbacks:
  assumes "control_timers s = []" "map_of (timers s) t = Some a"
  shows "a = LaunchFallback"
proof (rule ccontr)
  assume "a \<noteq> LaunchFallback"
  from fired_control [OF assms(2) this] assms(1) show False by simp
qed

lemma map_of_clearTimeout:
  "tid \<noteq> t \<Longrightarrow> map_of (timers (clearTimeout t s)) tid = map_of (timers s) tid"
proof -
  have "map_of (filter (\<lambda>(i, a). i \<noteq> t) xs) tid = map_of xs tid" if "tid \<noteq> t"
    for xs :: "(nat \<times> timer_action) list"
    using that by (induction xs) auto
  then show "tid \<noteq> t \<Longrightarrow> map_of (timers (clearTimeout t s)) tid = map_of (timers s) tid"
    by (simp add: clearTimeout_def)
qed

text \<open>While the launch awaits the animation, no event but the end of the animation or
  its fallback timer moves it on, and no request but one for translations is issued;
  the rocket keeps its \<open>launching\<close> class and the fallback timer stays pending.\<close>

lemma awaiting_animation_step:
  assumes "ctl_inv s" "launch s = AwaitAnimation ks tid p"
    and "rocketLaunching s" "map_of (timers s) tid = Some LaunchFallback"
    and "e \<noteq> AnimationEnd" "e \<noteq> TimerFire tid"
  shows "(\<exists>p'. launch (step e s) = AwaitAnimation ks tid p') \<and>
         rocketLaunching (step e s) \<and> map_of (timers (step e s)) tid = Some LaunchFallback \<and>
         other_requests (step e s) = other_requests s"
proof (cases "unloaded s")
  case True
  then show ?thesis using assms(2-4) by (simp add: step_def)
next
  case False
  have run: "launch s \<noteq> NotRunning" using assms(2) by simp
  note tr = transitioning [OF assms(1) run]
  have lk: "launchButton s = Some True" "gridDisabled s" "rocketDisabled s"
    using tr(2) by (simp_all add: locked_def)
  show ?thesis
  proof (cases e)
    case (GridClick b)
    then show ?thesis using False lk assms(2-4) by (simp add: step_def receivesClick_def)
  next
    case (RocketClick ri)
    then show ?thesis using False lk assms(2-4) by (simp add: step_def receivesClick_def)
  next
    case LaunchClick
    then show ?thesis using False lk assms(2-4) by (simp add: step_def)
  next
    case (LangClick lang)
    show ?thesis
    proof (cases "lang = []")
      case True
      then show ?thesis using LangClick False assms(2-4) by (simp add: step_def)
    next
      case ne: False
      have "step e s = setLanguage lang s" using LangClick False ne by (simp add: step_def)
      moreover have "other_requests (setLanguage lang s) = other_requests s"
        using requests_setLanguage [of lang s] by (auto simp: other_requests_def)
      ultimately show ?thesis using assms(2-4) by (simp add: setLanguage_frame)
    qed
  next
    case BackClick
    have "returnToSelection s = s" using tr(1) by (simp add: returnToSelection_def)
    moreover have "\<not> isWordcloudPage s"
      using assms(1) lk(1) by (auto simp: ctl_inv_def page_inv_def)
    ultimately show ?thesis using BackClick False assms(2-4) by (simp add: step_def)
  next
    case (TimerFire t)
    with assms(6) have ne: "t \<noteq> tid" by simp
    show ?thesis
    proof (cases "map_of (timers s) t")
      case None
      then show ?thesis using TimerFire False assms(2-4) by (simp add: step_def timerFired_def)
    next
      case (Some a)
      from only_fallbacks [OF tr(3) Some] have a: "a = LaunchFallback" .
      have "timerFired t s = clearTimeout t s"
        using Some a assms(2) ne
        by (auto simp: timerFired_def launchFallback_def clearTimeout_def Let_def)
      moreover have "map_of (timers (clearTimeout t s)) tid = Some LaunchFallback"
        using ne assms(4) by (simp add: map_of_clearTimeout)
      moreover have "launch (clearTimeout t s) = launch s"
        "rocketLaunching (clearTimeout t s) = rocketLaunching s"
        "other_requests (clearTimeout t s) = other_requests s"
        by (simp_all add: clearTimeout_def other_requests_def)
      ultimately show ?thesis using TimerFire False assms(2,3) by (simp add: step_def)
    qed
  next
    case AnimationEnd
    with assms(5) show ?thesis by simp
  next
    case (Response rid out)
    have l: "launch (launchSettled rid out s) = AwaitAnimation ks tid p \<or>
             launch (launchSettled rid out s) = AwaitAnimation ks tid (settle out)"
      and r: "requests (launchSettled rid out s) = requests s"
        "rocketLaunching (launchSettled rid out s) = rocketLaunching s"
        "timers (launchSettled rid out s) = timers s"
      using assms(2) by (simp_all add: launchSettled_def)
    from l r show ?thesis
      using Response False assms(3,4)
      by (auto simp: step_def translationsSettled_frame other_requests_def)
  next
    case (ImageLoad loaded)
    then show ?thesis using False assms(2-4) by (simp add: step_def imageSettled_def)
  qed
qed

lemma awaiting_animation_run:
  assumes "ctl_inv s" "launch s = AwaitAnimation ks tid p"
    and "rocketLaunching s" "map_of (timers s) tid = Some LaunchFallback"
    and "AnimationEnd \<notin> set evs" "TimerFire tid \<notin> set evs"
  shows "(\<exists>p'. launch (run evs s) = AwaitAnimation ks tid p') \<and>
         rocketLaunching (run evs s) \<and> map_of (timers (run evs s)) tid = Some LaunchFallback \<and>
         other_requests (run evs s) = other_requests s"
  using assms
proof (induction evs arbitrary: s p)
  case Nil
  then show ?case by simp
next
  case (Cons e evs)
  from Cons.prems(5,6) have ne: "e \<noteq> AnimationEnd" "e \<noteq> TimerFire tid"
    and rest: "AnimationEnd \<notin> set evs" "TimerFire tid \<notin> set evs" by auto
  from awaiting_animation_step [OF Cons.prems(1-4) ne]
  obtain p' where st: "launch (step e s) = AwaitAnimation ks tid p'"
    "rocketLaunching (step e s)" "map_of (timers (step e s)) tid = Some LaunchFallback"
    "other_requests (step e s) = other_requests s" by blast
  have inv: "ctl_inv (step e s)" using Cons.prems(1) by (rule ctl_inv_step)
  from Cons.IH [OF inv st(1-3) rest] st(4) show ?case by simp
qed

text \<open>When the animation promise resolves, by either signal, the vote is submitted.\<close>

lemma animation_resolved_votes:
  assumes "ctl_inv s" "launch s = AwaitAnimation ks tid p"
    and "rocketLaunching s" "map_of (timers s) tid = Some LaunchFallback"
  shows "requests (step AnimationEnd s) = requests s @ [(nextRequest s, SubmitVote ks)]"
    and "requests (step (TimerFire tid) s) = requests s @ [(nextRequest s, SubmitVote ks)]"
proof -
  have run: "launch s \<noteq> NotRunning" using assms(2) by simp
  have up: "\<not> unloaded s" by (rule running(6) [OF assms(1) run])
  show "requests (step AnimationEnd s) = requests s @ [(nextRequest s, SubmitVote ks)]"
    using up assms(2) by (simp add: step_def animationEnded_def launchAnimated_def fetch_def)
  have cl: "launch (clearTimeout tid s) = launch s"
    "rocketLaunching (clearTimeout tid s) = rocketLaunching s"
    "requests (clearTimeout tid s) = requests s"
    "nextRequest (clearTimeout tid s) = nextRequest s"
    by (simp_all add: clearTimeout_def)
  show "requests (step (TimerFire tid) s) = requests s @ [(nextRequest s, SubmitVote ks)]"
    using up assms(2-4)
    by (simp add: step_def timerFired_def launchFallback_def cl launchAnimated_def fetch_def
        Let_def)
qed

subsection \<open>Showing the word cloud and returning\<close>

lemmas launch_defs =
  step_def launchSettled_def launchVoted_def launchPrecomputed_def launchCommitted_def
  launchAnimated_def launchFailed_def animationEnded_def imageSettled_def settle_def
  showWordcloudView_def showWordcloudView_loaded_def loadWordcloudImage_def
  getWordcloudImagePath_def clearReturnTimer_def clearTimeout_def setTimeout_def fetch_def
  translationsSettled_def setLaunchInteractionDisabled_def AUTO_RETURN_ENABLED_def
  timerFired_def launchFallback_def returnToSelection_def returnToSelection_faded_def
  updateGridStates_def updateLaunchButtonState_def isWordcloudPage_def Let_def

lemma run_sample_shown_tail:
  "run [AnimationEnd, Response 3 Ok, Response 2 Ok, Response 4 Ok, ImageLoad True]
     sample_launched = sample_shown"
  by (simp add: sample_shown_def sample_launched_def sample_page_def launch_defs)

lemma run_sample_shown: "run sample_show (init None ''/'') = sample_shown"
proof -
  have e: "sample_show = [GridClick btn_food, GridClick btn_music, GridClick btn_book, LaunchClick] @
      [AnimationEnd, Response 3 Ok, Response 2 Ok, Response 4 Ok, ImageLoad True]"
    by (simp add: sample_show_def)
  show ?thesis
    unfolding e run_append run_sample_launched by (rule run_sample_shown_tail)
qed


lemma returnToSelection_control:
  assumes "isWordcloudVisible s" "wordcloudReturnTimer s = Some t"
    "control_timers s = [(t, AutoReturn)]"
  shows "control_timers (returnToSelection s) = [(nextTimer s, FadeOutDone)]"
proof -
  let ?c = "(clearTimeout t s)\<lparr>wordcloudReturnTimer := None, isWordcloudVisible := False\<rparr>"
  have "control_timers ?c = control_timers (clearTimeout t s)" by (simp add: control_timers_def)
  then have c: "control_timers ?c = []" using assms(3) by (simp add: control_timers_clearTimeout)
  show ?thesis
    unfolding returnToSelection_nf [OF assms(1,2)]
    by (simp add: control_timers_setTimeout c) (simp add: clearTimeout_def)
qed

lemma shown:
  assumes "ctl_inv s" "isWordcloudVisible s"
  shows "launch s = NotRunning" "locked s" "\<not> isWordcloudPage s" "\<not> unloaded s"
    "\<exists>t. wordcloudReturnTimer s = Some t \<and> control_timers s = [(t, AutoReturn)]"
proof -
  show "launch s = NotRunning" and l: "locked s"
    and "\<exists>t. wordcloudReturnTimer s = Some t \<and> control_timers s = [(t, AutoReturn)]"
    using assms by (auto simp: ctl_inv_def phase_inv_def)
  from l have "launchButton s = Some True" by (simp add: locked_def)
  then show p: "\<not> isWordcloudPage s" using assms(1) by (auto simp: ctl_inv_def page_inv_def)
  then show "\<not> unloaded s" using assms(1) by (auto simp: ctl_inv_def page_inv_def)
qed

lemma pending_timer:
  assumes "timers_fresh s" "(t, a) \<in> set (timers s)"
  shows "map_of (timers s) t = Some a"
  using assms by (intro map_of_is_SomeI) (simp_all add: timers_fresh_def)

lemma control_member:
  assumes "(t, a) \<in> set (timers s)" "a \<noteq> LaunchFallback"
  shows "(t, a) \<in> set (control_timers s)"
  using assms by (simp add: control_timers_def)

text \<open>After a return the launch button is enabled although nothing is selected:
  in the fade callback \<open>setLaunchInteractionDisabled(false)\<close> runs after
  \<open>updateLaunchButtonState\<close> and enables the button again. A click on it then does
  nothing, as \<open>handleLaunchButtonClick\<close> checks the length itself.\<close>

lemma sample_return_enables_launch:
  "selectedItems (run [BackClick, TimerFire 3] sample_shown) = [] \<and>
   launchButton (run [BackClick, TimerFire 3] sample_shown) = Some False \<and>
   step LaunchClick (run [BackClick, TimerFire 3] sample_shown) =
     run [BackClick, TimerFire 3] sample_shown"
  by (simp add: sample_shown_def sample_launched_def sample_page_def launch_defs
      handleLaunchButtonClick_def)


subsection \<open>What a launch has waited for\<close>

lemma awaited_cong:
  assumes "launch t = launch s" "isWordcloudVisible t = isWordcloudVisible s"
  shows "awaited tid rid E t = awaited tid rid E s"
  by (simp add: awaited_def assms)

lemma awaited_mono:
  assumes "awaited tid rid E s"
  shows "awaited tid rid (insert e E) s"
  using assms
  by (cases "launch s")
    (auto simp: awaited_def promise_ok_def split: if_splits promise.splits)

lemma awaited_hidden:
  assumes "awaited tid rid E s" "launch t = launch s" "\<not> isWordcloudVisible t"
  shows "awaited tid rid E t"
  using assms by (simp add: awaited_def)

lemma launch_view:
  "launch (launchFailed s) = NotRunning"
  "isWordcloudVisible (launchFailed s) = isWordcloudVisible s"
  "launch (launchPrecomputed s) = AwaitCommit (nextRequest s)"
  "isWordcloudVisible (launchPrecomputed s) = isWordcloudVisible s"
  "launch (launchCommitted s) = AwaitImage"
  "isWordcloudVisible (launchCommitted s) = isWordcloudVisible s"
  "launch (launchAnimated ks p s) = AwaitVote (nextRequest s) p"
  "isWordcloudVisible (launchAnimated ks p s) = isWordcloudVisible s"
  "launch (clearTimeout t s) = launch s"
  "isWordcloudVisible (clearTimeout t s) = isWordcloudVisible s"
  "launch (returnToSelection_faded s) = launch s"
  "isWordcloudVisible (returnToSelection_faded s) = isWordcloudVisible s"
  "launch (returnToSelection s) = launch s"
  "isWordcloudVisible (returnToSelection s) = False"
  "launch (updateLaunchButtonState s) = launch s"
  "isWordcloudVisible (updateLaunchButtonState s) = isWordcloudVisible s"
  by (simp_all add: launchFailed_nf launchPrecomputed_def launchCommitted_def
      showWordcloudView_def loadWordcloudImage_def launchAnimated_def fetch_def
      clearTimeout_def returnToSelection_faded_nf returnToSelection_def clearReturnTimer_def
      setTimeout_def updateLaunchButtonState_nf Let_def split: option.splits)

lemma select_view:
  "launch (handleGridItemClick b s) = launch s"
  "isWordcloudVisible (handleGridItemClick b s) = isWordcloudVisible s"
  "launch (handleRocketBlockClick ri s) = launch s"
  "isWordcloudVisible (handleRocketBlockClick ri s) = isWordcloudVisible s"
  by (simp_all add: handleGridItemClick_def handleRocketBlockClick_def Let_def
      updateGridStates_def launch_view)

lemma awaited_launchSettled:
  assumes "awaited tid rid E s"
  shows "awaited tid rid (insert (Response r out) E) (launchSettled r out s)"
proof (cases "launch s")
  case NotRunning
  then show ?thesis using awaited_mono [OF assms] by (simp add: launchSettled_def)
next
  case (AwaitAnimation ks t p)
  then show ?thesis
    using assms
    by (cases out)
      (auto simp: launchSettled_def awaited_def promise_ok_def settle_def
        split: if_splits promise.splits)
next
  case (AwaitVote v p)
  then show ?thesis
    using assms
    by (cases out; cases p)
      (auto simp: launchSettled_def launchVoted_def awaited_def promise_ok_def settle_def
        launch_view split: if_splits)
next
  case (AwaitPrecompute pid)
  then show ?thesis
    using assms
    by (cases out)
      (auto simp: launchSettled_def awaited_def promise_ok_def settle_def launch_view
        split: if_splits)
next
  case (AwaitCommit cid)
  then show ?thesis
    using assms
    by (auto simp: launchSettled_def awaited_def promise_ok_def launch_view split: if_splits)
next
  case AwaitImage
  then show ?thesis using awaited_mono [OF assms] by (simp add: launchSettled_def)
qed

lemma awaited_timerFired:
  assumes "awaited tid rid E s"
  shows "awaited tid rid (insert (TimerFire t) E) (timerFired t s)"
proof (cases "map_of (timers s) t")
  case None
  then show ?thesis using awaited_mono [OF assms] by (simp add: timerFired_def)
next
  case (Some a)
  note m = awaited_mono [OF assms, of "TimerFire t"]
  show ?thesis
  proof (cases a)
    case AutoReturn
    have "awaited tid rid (insert (TimerFire t) E) (returnToSelection (clearTimeout t s))"
      using m by (rule awaited_hidden) (simp_all add: launch_view)
    then show ?thesis using Some AutoReturn by (simp add: timerFired_def)
  next
    case FadeOutDone
    have "awaited tid rid (insert (TimerFire t) E) (returnToSelection_faded (clearTimeout t s)) =
          awaited tid rid (insert (TimerFire t) E) s"
      by (rule awaited_cong) (simp_all add: launch_view)
    then show ?thesis using Some FadeOutDone m by (simp add: timerFired_def)
  next
    case LaunchFallback
    have c: "awaited tid rid (insert (TimerFire t) E) (clearTimeout t s)"
      using m awaited_cong [of "clearTimeout t s" s] by (simp add: launch_view)
    have "awaited tid rid (insert (TimerFire t) E) (launchFallback t (clearTimeout t s))"
      using c
      by (cases "launch s")
        (auto simp: launchFallback_def awaited_def launch_view split: if_splits)
    then show ?thesis using Some LaunchFallback by (simp add: timerFired_def)
  qed
qed

lemma awaited_step:
  assumes "awaited tid rid E s" "e \<noteq> LaunchClick"
  shows "awaited tid rid (insert e E) (step e s)"
proof (cases "unloaded s")
  case True
  then show ?thesis using awaited_mono [OF assms(1)] by (simp add: step_def)
next
  case False
  note m = awaited_mono [OF assms(1), of e]
  show ?thesis
  proof (cases e)
    case (GridClick b)
    have "awaited tid rid (insert e E) (handleGridItemClick b s) = awaited tid rid (insert e E) s"
      by (rule awaited_cong) (simp_all add: select_view)
    then show ?thesis using GridClick False m by (simp add: step_def)
  next
    case (RocketClick ri)
    have "awaited tid rid (insert e E) (handleRocketBlockClick ri s) =
          awaited tid rid (insert e E) s"
      by (rule awaited_cong) (simp_all add: select_view)
    then show ?thesis using RocketClick False m by (simp add: step_def)
  next
    case LaunchClick
    with assms(2) show ?thesis by simp
  next
    case (LangClick lang)
    have "awaited tid rid (insert e E) (setLanguage lang s) = awaited tid rid (insert e E) s"
      by (rule awaited_cong) (simp_all add: setLanguage_frame)
    then show ?thesis using LangClick False m by (cases "lang = []") (simp_all add: step_def)
  next
    case BackClick
    have "awaited tid rid (insert e E) (s\<lparr>unloaded := True\<rparr>) = awaited tid rid (insert e E) s"
      by (rule awaited_cong) simp_all
    moreover have "awaited tid rid (insert e E) (returnToSelection s)"
      using m by (rule awaited_hidden) (simp_all add: launch_view)
    ultimately show ?thesis using BackClick False m by (simp add: step_def)
  next
    case (TimerFire t)
    then show ?thesis
      using False awaited_timerFired [OF assms(1), of t] by (simp add: step_def)
  next
    case AnimationEnd
    then show ?thesis
      using False assms(1)
      by (cases "launch s")
        (auto simp: step_def animationEnded_def awaited_def launch_view split: if_splits)
  next
    case (Response r out)
    have "awaited tid rid (insert e E) (translationsSettled r out (launchSettled r out s)) =
          awaited tid rid (insert e E) (launchSettled r out s)"
      by (rule awaited_cong) (simp_all add: translationsSettled_frame)
    then show ?thesis
      using Response False awaited_launchSettled [OF assms(1), of r out] by (simp add: step_def)
  next
    case (ImageLoad loaded)
    then show ?thesis
      using False assms(1)
      by (cases "launch s")
        (auto simp: step_def imageSettled_def awaited_def launch_view
          showWordcloudView_loaded_def Let_def clearReturnTimer_def setTimeout_def
          clearTimeout_def AUTO_RETURN_ENABLED_def split: if_splits option.splits)
  qed
qed

lemma awaited_run:
  assumes "awaited tid rid E s" "LaunchClick \<notin> set evs"
  shows "awaited tid rid (E \<union> set evs) (run evs s)"
  using assms
proof (induction evs arbitrary: s E)
  case Nil
  then show ?case by simp
next
  case (Cons e evs)
  from Cons.prems(2) have ne: "e \<noteq> LaunchClick" and rest: "LaunchClick \<notin> set evs" by auto
  have "awaited tid rid (insert e E) (step e s)" by (rule awaited_step [OF Cons.prems(1) ne])
  from Cons.IH [OF this rest] show ?case by simp
qed

subsection \<open>A failed launch\<close>

lemma launch_sel:
  "selectedItems (launchFailed s) = selectedItems s"
  "selectedItems (launchPrecomputed s) = selectedItems s"
  "selectedItems (launchCommitted s) = selectedItems s"
  "selectedItems (launchAnimated ks p s) = selectedItems s"
  "selectedItems (clearTimeout t s) = selectedItems s"
  "selectedItems (showWordcloudView_loaded s) = selectedItems s"
  by (simp_all add: launchFailed_nf launchPrecomputed_def launchCommitted_def
      showWordcloudView_def loadWordcloudImage_def launchAnimated_def fetch_def
      clearTimeout_def showWordcloudView_loaded_def clearReturnTimer_def setTimeout_def
      Let_def split: option.splits)

lemma selectedItems_launchSettled:
  "selectedItems (launchSettled rid out s) = selectedItems s"
  by (cases "launch s"; cases out)
    (auto simp: launchSettled_def launchVoted_def settle_def launch_sel split: promise.splits)

lemma transition_keeps_selection:
  assumes "ctl_inv s" "launch s \<noteq> NotRunning"
  shows "selectedItems (step e s) = selectedItems s"
proof -
  note r = running [OF assms]
  note tr = transitioning [OF assms]
  show ?thesis
  proof (cases e)
    case (GridClick b)
    then show ?thesis using r by (simp add: step_def receivesClick_def)
  next
    case (RocketClick ri)
    then show ?thesis using r by (simp add: step_def receivesClick_def)
  next
    case LaunchClick
    then show ?thesis using r by (simp add: step_def)
  next
    case (LangClick lang)
    then show ?thesis using r by (simp add: step_def setLanguage_frame)
  next
    case BackClick
    then show ?thesis using r tr(1) by (simp add: step_def returnToSelection_def)
  next
    case (TimerFire t)
    show ?thesis
    proof (cases "map_of (timers s) t")
      case None
      then show ?thesis using TimerFire r by (simp add: step_def timerFired_def)
    next
      case (Some a)
      from only_fallbacks [OF tr(3) Some] have a: "a = LaunchFallback" .
      have "selectedItems (launchFallback t (clearTimeout t s)) = selectedItems s"
        by (cases "launch (clearTimeout t s)") (simp_all add: launchFallback_def launch_sel)
      then show ?thesis using TimerFire r Some a by (simp add: step_def timerFired_def)
    qed
  next
    case AnimationEnd
    then show ?thesis
      using r by (cases "launch s") (simp_all add: step_def animationEnded_def launch_sel)
  next
    case (Response rid out)
    then show ?thesis
      using r by (simp add: step_def translationsSettled_frame selectedItems_launchSettled)
  next
    case (ImageLoad loaded)
    then show ?thesis
      using r by (cases "launch s") (simp_all add: step_def imageSettled_def launch_sel)
  qed
qed

lemma restored_launchFailed:
  assumes "ctl_inv s" "launch s \<noteq> NotRunning" "launchSettled rid out s = launchFailed s"
  shows "restored s (step (Response rid out) s)"
proof -
  note r = running [OF assms(1,2)]
  note tr = transitioning [OF assms(1,2)]
  have st: "step (Response rid out) s = translationsSettled rid out (launchFailed s)"
    using r(6) assms(3) by (simp add: step_def)
  show ?thesis
    unfolding st restored_def translationsSettled_frame
    unfolding launchFailed_nf using r tr(1) by simp
qed


subsection \<open>The image after a language switch\<close>

lemma setLanguage_loaded_image:
  "wordcloudImageSrc (setLanguage_loaded l s) =
     (if isWordcloudPage s then Some (getWordcloudImagePath l) else wordcloudImageSrc s)"
  by (simp add: setLanguage_loaded_def Let_def updateWordcloudImage_def loadWordcloudImage_def
      isWordcloudPage_def)

lemma resumeLanguage_image:
  assumes "isWordcloudPage s"
  shows "wordcloudImageSrc (resumeLanguage Ok (langs @ [l]) s) = Some (getWordcloudImagePath l)"
  using assms
proof (induction langs arbitrary: s)
  case Nil
  then show ?case by (simp add: setLanguage_loaded_image isWordcloudPage_def)
next
  case (Cons a langs)
  have "isWordcloudPage (setLanguage_loaded a (s\<lparr>translationsCache := a # translationsCache s\<rparr>))"
    using Cons.prems by (simp add: isWordcloudPage_def setLanguage_loaded_frame)
  from Cons.IH [OF this] show ?case by simp
qed


subsection \<open>The launch button in the selection view\<close>

lemma button_inv_cong:
  assumes "selectedItems t = selectedItems s" "timers t = timers s"
    "(launch t = NotRunning) = (launch s = NotRunning)"
    "isWordcloudVisible t = isWordcloudVisible s" "launchButton t = launchButton s"
    "gridDisabled t = gridDisabled s" "rocketDisabled t = rocketDisabled s"
  shows "button_inv r t = button_inv r s"
  unfolding button_inv_def control_timers_def by (simp only: assms)

lemma button_inv_mono: "button_inv r s \<Longrightarrow> (r \<longrightarrow> r') \<Longrightarrow> button_inv r' s"
  by (cases r; cases r') (auto simp: button_inv_def)

lemma button_inv_select:
  assumes "button_inv r s" "ctl_inv s" "\<not> locked s"
  shows "button_inv r (updateLaunchButtonState (s\<lparr>selectedItems := sel\<rparr>))"
proof -
  note idle = idle_unlocked [OF assms(2,3)]
  from assms(1) obtain d where d: "launchButton s = Some d" by (auto simp: button_inv_def)
  from assms(1) idle have en: "\<not> gridDisabled s" "\<not> rocketDisabled s"
    by (simp_all add: button_inv_def)
  show ?thesis
    unfolding updateLaunchButtonState_nf using idle d en
    by (simp add: button_inv_def control_timers_def)
qed

lemma button_inv_handleGridItemClick:
  assumes "button_inv r s" "ctl_inv s" "\<not> gridDisabled s"
  shows "button_inv r (handleGridItemClick b s)"
proof -
  have "\<not> locked s" using assms(3) by (simp add: locked_def)
  then have "button_inv r (updateLaunchButtonState
      (s\<lparr>selectedItems := selectedItems (handleGridItemClick b s)\<rparr>))"
    by (rule button_inv_select [OF assms(1,2)])
  then show ?thesis using handleGridItemClick_nf [of b s] by simp
qed

lemma button_inv_handleRocketBlockClick:
  assumes "button_inv r s" "ctl_inv s" "\<not> rocketDisabled s"
  shows "button_inv r (handleRocketBlockClick ri s)"
proof -
  have "\<not> locked s" using assms(3) by (simp add: locked_def)
  then have "button_inv r (updateLaunchButtonState
      (s\<lparr>selectedItems := selectedItems (handleRocketBlockClick ri s)\<rparr>))"
    by (rule button_inv_select [OF assms(1,2)])
  then show ?thesis using handleRocketBlockClick_nf [of ri s] assms(1) by auto
qed

lemma button_inv_handleLaunchButtonClick:
  assumes "button_inv r s" "ctl_inv s" "launchButton s = Some False"
  shows "button_inv r (handleLaunchButtonClick s)"
proof (cases "length (selectedItems s) = 3")
  case False
  then show ?thesis using assms(1) by (simp add: handleLaunchButtonClick_def)
next
  case True
  have nl: "\<not> locked s" using assms(3) by (simp add: locked_def)
  note idle = idle_unlocked [OF assms(2) nl]
  show ?thesis
    unfolding handleLaunchButtonClick_nf [OF True]
    using idle assms(3) by (simp add: button_inv_def control_timers_def)
qed

lemma button_inv_returnToSelection:
  assumes "button_inv r s" "ctl_inv s"
  shows "button_inv r (returnToSelection s)"
proof (cases "isWordcloudVisible s")
  case False
  then show ?thesis using assms(1) by (simp add: returnToSelection_def)
next
  case True
  from shown(5) [OF assms(2) True] obtain t where t: "wordcloudReturnTimer s = Some t"
    "control_timers s = [(t, AutoReturn)]" by blast
  have r: "r" using assms(1) True by (auto simp: button_inv_def)
  have c: "control_timers (returnToSelection s) = [(nextTimer s, FadeOutDone)]"
    by (rule returnToSelection_control [OF True t])
  have "launchButton (returnToSelection s) = launchButton s"
    unfolding returnToSelection_nf [OF True t(1)] by (simp add: setTimeout_def clearTimeout_def)
  then show ?thesis using assms(1) r c by (simp add: button_inv_def)
qed

lemma button_inv_launchFailed:
  assumes "button_inv r s" "ctl_inv s" "launch s \<noteq> NotRunning"
  shows "button_inv r (launchFailed s)"
proof -
  note tr = transitioning [OF assms(2,3)]
  note rn = running [OF assms(2,3)]
  show ?thesis
    unfolding launchFailed_nf using tr rn assms(1)
    by (simp add: button_inv_def control_timers_def)
qed

lemma button_inv_keep:
  assumes "button_inv r s" "launch s \<noteq> NotRunning" "launch t \<noteq> NotRunning"
    "selectedItems t = selectedItems s" "timers t = timers s"
    "isWordcloudVisible t = isWordcloudVisible s" "launchButton t = launchButton s"
    "gridDisabled t = gridDisabled s" "rocketDisabled t = rocketDisabled s"
  shows "button_inv r t"
proof -
  have "button_inv r t = button_inv r s"
    using assms(2,3) by (intro button_inv_cong assms(4-9)) simp
  with assms(1) show ?thesis by simp
qed

lemma button_inv_launchAnimated:
  assumes "button_inv r s" "launch s \<noteq> NotRunning"
  shows "button_inv r (launchAnimated ks p s)"
  using assms by (rule button_inv_keep) (simp_all add: launchAnimated_def fetch_def)

lemma button_inv_launchPrecomputed:
  assumes "button_inv r s" "launch s \<noteq> NotRunning"
  shows "button_inv r (launchPrecomputed s)"
  using assms by (rule button_inv_keep) (simp_all add: launchPrecomputed_def fetch_def)

lemma button_inv_launchCommitted:
  assumes "button_inv r s" "launch s \<noteq> NotRunning"
  shows "button_inv r (launchCommitted s)"
  using assms
  by (rule button_inv_keep)
    (simp_all add: launchCommitted_def showWordcloudView_def loadWordcloudImage_def Let_def)

lemma button_inv_relaunch:
  assumes "button_inv r s" "launch s \<noteq> NotRunning" "pc \<noteq> NotRunning"
  shows "button_inv r (s\<lparr>launch := pc\<rparr>)"
  using assms(1,2) by (rule button_inv_keep) (simp_all add: assms(3))

lemma button_inv_imageLoaded:
  assumes "button_inv r s" "ctl_inv s" "launch s \<noteq> NotRunning"
  shows "button_inv True ((showWordcloudView_loaded s)\<lparr>launch := NotRunning\<rparr>)"
proof -
  note tr = transitioning [OF assms(2,3)]
  show ?thesis
    unfolding showWordcloudView_loaded_nf [OF tr(4)] using assms(1)
    by (simp add: button_inv_def)
qed

lemma button_inv_imageSettled:
  assumes "button_inv r s" "ctl_inv s"
  shows "button_inv (r \<or> loaded) (imageSettled loaded s)"
proof (cases "launch s = AwaitImage")
  case False
  then have "imageSettled loaded s = s" by (cases "launch s") (simp_all add: imageSettled_def)
  then show ?thesis using button_inv_mono [OF assms(1), of "r \<or> loaded"] by simp
next
  case True
  then have run: "launch s \<noteq> NotRunning" by simp
  show ?thesis
  proof (cases loaded)
    case True
    then show ?thesis
      using \<open>launch s = AwaitImage\<close> button_inv_imageLoaded [OF assms run]
      by (simp add: imageSettled_def)
  next
    case False
    then show ?thesis
      using \<open>launch s = AwaitImage\<close> button_inv_launchFailed [OF assms run]
        button_inv_mono [of r "launchFailed s" "r \<or> loaded"]
      by (simp add: imageSettled_def)
  qed
qed

lemma button_inv_animationEnded:
  assumes "button_inv r s"
  shows "button_inv r (animationEnded s)"
  using assms by (cases "launch s") (simp_all add: animationEnded_def button_inv_launchAnimated)

lemma button_inv_launchVoted:
  assumes "button_inv r s" "ctl_inv s" "launch s \<noteq> NotRunning"
  shows "button_inv r (launchVoted out p s)"
  using assms
  by (cases out; cases p)
    (simp_all add: launchVoted_def button_inv_launchFailed button_inv_launchPrecomputed
      button_inv_relaunch)

lemma button_inv_launchSettled:
  assumes "button_inv r s" "ctl_inv s"
  shows "button_inv r (launchSettled rid out s)"
proof (cases "launch s")
  case NotRunning
  then show ?thesis using assms by (simp add: launchSettled_def)
next
  case (AwaitAnimation ks t p)
  then show ?thesis using assms by (simp add: launchSettled_def button_inv_relaunch)
next
  case (AwaitVote vid p)
  then show ?thesis
    using assms by (simp add: launchSettled_def button_inv_relaunch button_inv_launchVoted)
next
  case (AwaitPrecompute pid)
  then show ?thesis
    using assms
    by (cases out)
      (simp_all add: launchSettled_def settle_def button_inv_launchPrecomputed
        button_inv_launchFailed)
next
  case (AwaitCommit cid)
  then show ?thesis using assms by (simp add: launchSettled_def button_inv_launchCommitted)
next
  case AwaitImage
  then show ?thesis using assms by (simp add: launchSettled_def)
qed

lemma button_inv_translationsSettled:
  "button_inv r (translationsSettled rid out s) = button_inv r s"
  by (rule button_inv_cong) (simp_all add: translationsSettled_frame)

lemma button_inv_setLanguage: "button_inv r (setLanguage l s) = button_inv r s"
  by (rule button_inv_cong) (simp_all add: setLanguage_frame)

lemma button_inv_timerFired:
  assumes "button_inv r s" "ctl_inv s"
  shows "button_inv r (timerFired t s)"
proof (cases "map_of (timers s) t")
  case None
  then show ?thesis using assms by (simp add: timerFired_def)
next
  case (Some a)
  have f: "timers_fresh s" and ph: "phase_inv s" using assms(2) by (simp_all add: ctl_inv_def)
  show ?thesis
  proof (cases a)
    case AutoReturn
    have m: "(t, AutoReturn) \<in> set (control_timers s)"
      using Some AutoReturn by (intro fired_control) simp_all
    have vis: "isWordcloudVisible s"
    proof (rule ccontr)
      assume "\<not> isWordcloudVisible s"
      with ph m show False by (auto simp: phase_inv_def split: if_splits)
    qed
    with ph obtain t' where t': "wordcloudReturnTimer s = Some t'"
      "control_timers s = [(t', AutoReturn)]" by (auto simp: phase_inv_def)
    from singleton_member [OF m t'(2)] have "t' = t" by simp
    with t' have w: "wordcloudReturnTimer s = Some t" by simp
    have "timerFired t s = returnToSelection s"
      using Some AutoReturn returnToSelection_clearTimeout [OF vis w]
      by (simp add: timerFired_def)
    then show ?thesis using assms by (simp add: button_inv_returnToSelection)
  next
    case FadeOutDone
    have m: "(t, FadeOutDone) \<in> set (control_timers s)"
      using Some FadeOutDone by (intro fired_control) simp_all
    then have ne: "control_timers s \<noteq> []" by auto
    then have r: "r" using assms(1) by (auto simp: button_inv_def)
    have b: "launchButton s \<noteq> None" using assms(1) by (simp add: button_inv_def)
    have eq: "timerFired t s = returnToSelection_faded (clearTimeout t s)"
      using Some FadeOutDone by (simp add: timerFired_def)
    show ?thesis
      unfolding eq returnToSelection_faded_nf using r b
      by (auto simp: button_inv_def clearTimeout_def)
  next
    case LaunchFallback
    have c: "control_timers (clearTimeout t s) = control_timers s"
      using fired_fallback [OF f] Some LaunchFallback
      by (simp add: control_timers_clearTimeout)
    have "button_inv r (clearTimeout t s) = button_inv r s"
      unfolding button_inv_def c by (simp add: clearTimeout_def)
    then have i1: "button_inv r (clearTimeout t s)" using assms(1) by simp
    have "button_inv r (launchFallback t (clearTimeout t s))"
      using i1
      by (cases "launch (clearTimeout t s)")
        (simp_all add: launchFallback_def button_inv_launchAnimated)
    then show ?thesis using Some LaunchFallback by (simp add: timerFired_def)
  qed
qed

lemma button_inv_step:
  assumes "button_inv r s" "ctl_inv s"
  shows "button_inv (r \<or> e = ImageLoad True) (step e s)"
proof (cases "unloaded s")
  case True
  then show ?thesis
    using button_inv_mono [OF assms(1), of "r \<or> e = ImageLoad True"] by (simp add: step_def)
next
  case False
  have keep: "button_inv (r \<or> e = ImageLoad True) t" if "button_inv r t" for t
    using button_inv_mono [OF that, of "r \<or> e = ImageLoad True"] by simp
  show ?thesis
  proof (cases e)
    case (GridClick b)
    have "button_inv r (step e s)"
      using GridClick assms False
      by (simp add: step_def receivesClick_def button_inv_handleGridItemClick)
    then show ?thesis by (rule keep)
  next
    case (RocketClick ri)
    have "button_inv r (step e s)"
      using RocketClick assms False
      by (simp add: step_def receivesClick_def button_inv_handleRocketBlockClick)
    then show ?thesis by (rule keep)
  next
    case LaunchClick
    have "button_inv r (step e s)"
      using LaunchClick assms False
      by (cases "launchButton s") (simp_all add: step_def button_inv_handleLaunchButtonClick)
    then show ?thesis by (rule keep)
  next
    case (LangClick lang)
    have "button_inv r (step e s)"
      using LangClick assms False by (simp add: step_def button_inv_setLanguage)
    then show ?thesis by (rule keep)
  next
    case BackClick
    have "button_inv r (s\<lparr>unloaded := True\<rparr>) = button_inv r s"
      by (rule button_inv_cong) simp_all
    then have "button_inv r (step e s)"
      using BackClick assms False by (simp add: step_def button_inv_returnToSelection)
    then show ?thesis by (rule keep)
  next
    case (TimerFire t)
    have "button_inv r (step e s)"
      using TimerFire assms False by (simp add: step_def button_inv_timerFired)
    then show ?thesis by (rule keep)
  next
    case AnimationEnd
    have "button_inv r (step e s)"
      using AnimationEnd assms False by (simp add: step_def button_inv_animationEnded)
    then show ?thesis by (rule keep)
  next
    case (Response rid out)
    have "button_inv r (step e s)"
      using Response assms False
      by (simp add: step_def button_inv_translationsSettled button_inv_launchSettled)
    then show ?thesis by (rule keep)
  next
    case (ImageLoad loaded)
    then show ?thesis
      using False button_inv_imageSettled [OF assms, of loaded] by (simp add: step_def)
  qed
qed

lemma button_inv_run:
  assumes "button_inv r s" "ctl_inv s"
  shows "button_inv (r \<or> ImageLoad True \<in> set evs) (run evs s)"
  using assms
proof (induction evs arbitrary: s r)
  case Nil
  then show ?case by simp
next
  case (Cons e evs)
  have "button_inv (r \<or> e = ImageLoad True) (step e s)"
    by (rule button_inv_step [OF Cons.prems])
  moreover have "ctl_inv (step e s)" using Cons.prems(2) by (rule ctl_inv_step)
  ultimately have "button_inv ((r \<or> e = ImageLoad True) \<or> ImageLoad True \<in> set evs)
      (run evs (step e s))" by (rule Cons.IH)
  moreover have "((r \<or> e = ImageLoad True) \<or> ImageLoad True \<in> set evs) =
      (r \<or> ImageLoad True \<in> set (e # evs))" by auto
  ultimately show ?case by simp
qed

lemma button_inv_init:
  "path \<noteq> ''/wordcloud'' \<Longrightarrow> button_inv False (init stored path)"
  by (simp add: button_inv_def init_view control_timers_def)

lemma button_inv_reachable:
  assumes "path \<noteq> ''/wordcloud''"
  shows "button_inv (ImageLoad True \<in> set evs) (run evs (init stored path))"
  using button_inv_run [OF button_inv_init [OF assms] ctl_inv_init, of evs stored] by simp

lemma selecting_control:
  assumes "ctl_inv s"
  shows "selecting s = (launch s = NotRunning \<and> \<not> isWordcloudVisible s \<and> control_timers s = [])"
proof -
  have a: "FadeOutDone \<notin> snd ` set (timers s)" if "control_timers s = []"
  proof
    assume "FadeOutDone \<in> snd ` set (timers s)"
    then obtain i where "(i, FadeOutDone) \<in> set (timers s)" by force
    then have "(i, FadeOutDone) \<in> set (control_timers s)" by (intro control_member) simp_all
    with that show False by simp
  qed
  have b: "control_timers s = []"
    if "launch s = NotRunning" "\<not> isWordcloudVisible s" "FadeOutDone \<notin> snd ` set (timers s)"
  proof -
    from assms that(1,2) have "control_timers s = [] \<or> (\<exists>f. control_timers s = [(f, FadeOutDone)])"
      by (auto simp: ctl_inv_def phase_inv_def)
    moreover have False if "control_timers s = [(f, FadeOutDone)]" for f
    proof -
      have "(f, FadeOutDone) \<in> set (control_timers s)" using that by simp
      then have "(f, FadeOutDone) \<in> set (timers s)" by (simp add: control_timers_def)
      then have "FadeOutDone \<in> snd ` set (timers s)" by force
      with \<open>FadeOutDone \<notin> snd ` set (timers s)\<close> show False by simp
    qed
    ultimately show ?thesis by blast
  qed
  show ?thesis using a b by (auto simp: selecting_def)
qed

lemma not_selecting_locked:
  assumes "ctl_inv s" "\<not> selecting s"
  shows "locked s"
proof (rule ccontr)
  assume "\<not> locked s"
  from idle_unlocked [OF assms(1) this] assms(2) selecting_control [OF assms(1)]
  show False by simp
qed


subsection \<open>A rejection held until the vote is answered\<close>

lemma transitioning_step:
  assumes "ctl_inv s" "launch s \<noteq> NotRunning"
  shows "step (GridClick b) s = s" "step (RocketClick ri) s = s" "step LaunchClick s = s"
    "step BackClick s = s" "launch (step (LangClick l) s) = launch s"
    "step AnimationEnd s = animationEnded s"
    "launch (step (Response r out) s) = launch (launchSettled r out s)"
    "step (ImageLoad loaded) s = imageSettled loaded s"
    "step (TimerFire t) s = s \<or> step (TimerFire t) s = launchFallback t (clearTimeout t s)"
proof -
  note r = running [OF assms]
  note tr = transitioning [OF assms]
  show "step (GridClick b) s = s" using r by (simp add: step_def receivesClick_def)
  show "step (RocketClick ri) s = s" using r by (simp add: step_def receivesClick_def)
  show "step LaunchClick s = s" using r by (simp add: step_def)
  show "step BackClick s = s" using r tr(1) by (simp add: step_def returnToSelection_def)
  show "launch (step (LangClick l) s) = launch s" using r by (simp add: step_def setLanguage_frame)
  show "step AnimationEnd s = animationEnded s" using r by (simp add: step_def)
  show "launch (step (Response r out) s) = launch (launchSettled r out s)"
    using r by (simp add: step_def translationsSettled_frame)
  show "step (ImageLoad loaded) s = imageSettled loaded s" using r by (simp add: step_def)
  show "step (TimerFire t) s = s \<or> step (TimerFire t) s = launchFallback t (clearTimeout t s)"
  proof (cases "map_of (timers s) t")
    case None
    then show ?thesis using r by (simp add: step_def timerFired_def)
  next
    case (Some a)
    from only_fallbacks [OF tr(3) Some] have "a = LaunchFallback" .
    then show ?thesis using Some r by (simp add: step_def timerFired_def)
  qed
qed

lemma held_step:
  assumes "ctl_inv s" "rejection_held s"
  shows "rejection_held (step e s) \<or>
         (\<exists>v out. e = Response v out \<and> launch s = AwaitVote v Rejected \<and>
                  restored s (step e s))"
proof -
  from assms(2) have run: "launch s \<noteq> NotRunning" by (auto simp: rejection_held_def)
  note ts = transitioning_step [OF assms(1) run]
  have same: "rejection_held t" if "launch t = launch s" for t
    using assms(2) that by (simp add: rejection_held_def)
  have fb: "rejection_held (launchFallback t (clearTimeout t s))" for t
    using assms(2)
    by (cases "launch s")
      (auto simp: rejection_held_def launchFallback_def launch_view)
  have an: "rejection_held (animationEnded s)"
    using assms(2)
    by (cases "launch s") (auto simp: rejection_held_def animationEnded_def launch_view)
  show ?thesis
  proof (cases e)
    case (GridClick b)
    then show ?thesis using ts(1) assms(2) by simp
  next
    case (RocketClick ri)
    then show ?thesis using ts(2) assms(2) by simp
  next
    case LaunchClick
    then show ?thesis using ts(3) assms(2) by simp
  next
    case (LangClick l)
    then show ?thesis using same [OF ts(5)] by simp
  next
    case BackClick
    then show ?thesis using ts(4) assms(2) by simp
  next
    case (TimerFire t)
    then show ?thesis using ts(9) [of t] assms(2) fb [of t] by auto
  next
    case AnimationEnd
    then show ?thesis using ts(6) an by simp
  next
    case (Response r out)
    show ?thesis
    proof (cases "launch s = AwaitVote r Rejected")
      case True
      have "launchSettled r out s = launchFailed s"
        using True by (cases out) (simp_all add: launchSettled_def launchVoted_def)
      with assms(1) run have "restored s (step (Response r out) s)"
        by (rule restored_launchFailed)
      then show ?thesis using Response True by simp
    next
      case False
      have "launchSettled r out s = s"
        using assms(2) False
        by (cases "launch s") (auto simp: rejection_held_def launchSettled_def)
      then have "launch (step (Response r out) s) = launch s" using ts(7) [of r out] by simp
      from same [OF this] show ?thesis using Response by simp
    qed
  next
    case (ImageLoad loaded)
    have "imageSettled loaded s = s"
      using assms(2) by (cases "launch s") (auto simp: rejection_held_def imageSettled_def)
    then show ?thesis using ImageLoad ts(8) [of loaded] assms(2) by simp
  qed
qed

lemma held_run:
  assumes "ctl_inv s" "rejection_held s"
  shows "(rejection_held (run evs s) \<and> selectedItems (run evs s) = selectedItems s) \<or>
         (\<exists>pre v out post. evs = pre @ Response v out # post \<and>
            launch (run pre s) = AwaitVote v Rejected \<and>
            selectedItems (run pre s) = selectedItems s \<and>
            restored (run pre s) (step (Response v out) (run pre s)))"
  using assms
proof (induction evs arbitrary: s)
  case Nil
  then show ?case by simp
next
  case (Cons e evs)
  from Cons.prems(2) have run: "launch s \<noteq> NotRunning" by (auto simp: rejection_held_def)
  from held_step [OF Cons.prems, of e] show ?case
  proof
    assume h: "rejection_held (step e s)"
    have inv: "ctl_inv (step e s)" using Cons.prems(1) by (rule ctl_inv_step)
    have sel: "selectedItems (step e s) = selectedItems s"
      by (rule transition_keeps_selection [OF Cons.prems(1) run])
    from Cons.IH [OF inv h] show ?thesis
    proof
      assume "rejection_held (run evs (step e s)) \<and>
              selectedItems (run evs (step e s)) = selectedItems (step e s)"
      then show ?thesis using sel by simp
    next
      assume "\<exists>pre v out post. evs = pre @ Response v out # post \<and>
            launch (run pre (step e s)) = AwaitVote v Rejected \<and>
            selectedItems (run pre (step e s)) = selectedItems (step e s) \<and>
            restored (run pre (step e s)) (step (Response v out) (run pre (step e s)))"
      then obtain pre v out post where p: "evs = pre @ Response v out # post"
        "launch (run pre (step e s)) = AwaitVote v Rejected"
        "selectedItems (run pre (step e s)) = selectedItems (step e s)"
        "restored (run pre (step e s)) (step (Response v out) (run pre (step e s)))"
        by blast
      have "e # evs = (e # pre) @ Response v out # post" using p(1) by simp
      moreover have "launch (run (e # pre) s) = AwaitVote v Rejected" using p(2) by simp
      moreover have "selectedItems (run (e # pre) s) = selectedItems s" using p(3) sel by simp
      moreover have "restored (run (e # pre) s) (step (Response v out) (run (e # pre) s))"
        using p(4) by simp
      ultimately show ?thesis by blast
    qed
  next
    assume "\<exists>v out. e = Response v out \<and> launch s = AwaitVote v Rejected \<and>
              restored s (step e s)"
    then obtain v out where p: "e = Response v out" "launch s = AwaitVote v Rejected"
      "restored s (step e s)" by blast
    have "e # evs = [] @ Response v out # evs" using p(1) by simp
    moreover have "launch (run [] s) = AwaitVote v Rejected" using p(2) by simp
    moreover have "selectedItems (run [] s) = selectedItems s" by simp
    moreover have "restored (run [] s) (step (Response v out) (run [] s))" using p(1,3) by simp
    ultimately show ?thesis by blast
  qed
qed

text \<open>The animation is awaited only with the rocket launching and the fallback pending.\<close>

lemma animating_step:
  assumes "\<not> animating (launch s)" "e \<noteq> LaunchClick"
  shows "\<not> animating (launch (step e s))"
proof (cases "unloaded s")
  case True
  then show ?thesis using assms(1) by (simp add: step_def)
next
  case False
  have fb: "launchFallback t u = u" if "launch u = launch s" for t u
    using assms(1) that by (cases "launch s") (simp_all add: launchFallback_def animating_def)
  show ?thesis
  proof (cases e)
    case (GridClick b)
    then show ?thesis using assms(1) False by (simp add: step_def select_view)
  next
    case (RocketClick ri)
    then show ?thesis using assms(1) False by (simp add: step_def select_view)
  next
    case LaunchClick
    with assms(2) show ?thesis by simp
  next
    case (LangClick l)
    then show ?thesis using assms(1) False by (simp add: step_def setLanguage_frame)
  next
    case BackClick
    then show ?thesis using assms(1) False by (simp add: step_def launch_view)
  next
    case (TimerFire t)
    have "launchFallback t (clearTimeout t s) = clearTimeout t s"
      by (rule fb) (simp add: launch_view)
    then show ?thesis
      using TimerFire assms(1) False
      by (cases "map_of (timers s) t")
        (auto simp: step_def timerFired_def launch_view Let_def split: timer_action.splits)
  next
    case AnimationEnd
    then show ?thesis
      using assms(1) False
      by (cases "launch s") (simp_all add: step_def animationEnded_def animating_def)
  next
    case (Response r out)
    have "\<not> animating (launch (launchSettled r out s))"
      using assms(1)
      by (cases "launch s"; cases out)
        (auto simp: launchSettled_def launchVoted_def settle_def launch_view animating_def
          split: promise.splits)
    then show ?thesis using Response False by (simp add: step_def translationsSettled_frame)
  next
    case (ImageLoad loaded)
    then show ?thesis
      using assms(1) False
      by (cases "launch s")
        (auto simp: step_def imageSettled_def launch_view animating_def)
  qed
qed

lemma anim_inv_idle: "\<not> animating (launch s) \<Longrightarrow> anim_inv s"
  by (cases "launch s") (simp_all add: anim_inv_def animating_def)

lemma animation_resolved:
  assumes "ctl_inv s" "launch s = AwaitAnimation ks tid p"
    and "rocketLaunching s" "map_of (timers s) tid = Some LaunchFallback"
  shows "launch (step AnimationEnd s) = AwaitVote (nextRequest s) p"
    and "launch (step (TimerFire tid) s) = AwaitVote (nextRequest s) p"
proof -
  have run: "launch s \<noteq> NotRunning" using assms(2) by simp
  have up: "\<not> unloaded s" by (rule running(6) [OF assms(1) run])
  show "launch (step AnimationEnd s) = AwaitVote (nextRequest s) p"
    using up assms(2) by (simp add: step_def animationEnded_def launch_view)
  have cl: "launch (clearTimeout tid s) = launch s"
    "rocketLaunching (clearTimeout tid s) = rocketLaunching s"
    "nextRequest (clearTimeout tid s) = nextRequest s"
    by (simp_all add: clearTimeout_def)
  show "launch (step (TimerFire tid) s) = AwaitVote (nextRequest s) p"
    using up assms(2-4)
    by (simp add: step_def timerFired_def launchFallback_def cl launch_view Let_def)
qed

lemma anim_inv_step:
  assumes "ctl_inv s" "anim_inv s"
  shows "anim_inv (step e s)"
proof (cases "launch s")
  case (AwaitAnimation ks tid p)
  with assms(2) have a: "rocketLaunching s" "map_of (timers s) tid = Some LaunchFallback"
    by (simp_all add: anim_inv_def)
  note res = animation_resolved [OF assms(1) AwaitAnimation a]
  show ?thesis
  proof (cases "e = AnimationEnd \<or> e = TimerFire tid")
    case True
    then show ?thesis using res by (auto simp: anim_inv_def)
  next
    case False
    then have ne: "e \<noteq> AnimationEnd" "e \<noteq> TimerFire tid" by simp_all
    from awaiting_animation_step [OF assms(1) AwaitAnimation a ne]
    show ?thesis by (auto simp: anim_inv_def)
  qed
next
  case NotRunning
  show ?thesis
  proof (cases "e = LaunchClick \<and> \<not> unloaded s \<and> launchButton s = Some False \<and>
                length (selectedItems s) = 3")
    case True
    then have st: "step e s = handleLaunchButtonClick s" by (simp add: step_def)
    have "timers_fresh s" using assms(1) by (simp add: ctl_inv_def)
    then have "nextTimer s \<notin> fst ` set (timers s)"
      by (auto simp: timers_fresh_def list_all_iff)
    then have "map_of (timers s) (nextTimer s) = None" by (simp add: map_of_eq_None_iff)
    then have "map_of (timers s @ [(nextTimer s, LaunchFallback)]) (nextTimer s) =
        Some LaunchFallback" by (simp add: map_add_def)
    moreover from True have len: "length (selectedItems s) = 3" by simp
    ultimately show ?thesis
      unfolding st handleLaunchButtonClick_nf [OF len] by (simp add: anim_inv_def)
  next
    case False
    have "\<not> animating (launch (step e s))"
    proof (cases "e = LaunchClick")
      case True
      with False have "step e s = s"
        by (cases "launchButton s")
          (auto simp: step_def handleLaunchButtonClick_def)
      then show ?thesis using NotRunning by (simp add: animating_def)
    next
      case ne: False
      show ?thesis by (rule animating_step [OF _ ne]) (simp add: NotRunning animating_def)
    qed
    then show ?thesis by (rule anim_inv_idle)
  qed
next
  case (AwaitVote v p)
  then have run: "launch s \<noteq> NotRunning" by simp
  have "\<not> animating (launch (step e s))"
  proof (cases "e = LaunchClick")
    case True
    then show ?thesis
      using transitioning_step(3) [OF assms(1) run] AwaitVote by (simp add: animating_def)
  next
    case False
    show ?thesis by (rule animating_step [OF _ False]) (simp add: AwaitVote animating_def)
  qed
  then show ?thesis by (rule anim_inv_idle)
next
  case (AwaitPrecompute r)
  then have run: "launch s \<noteq> NotRunning" by simp
  have "\<not> animating (launch (step e s))"
  proof (cases "e = LaunchClick")
    case True
    then show ?thesis
      using transitioning_step(3) [OF assms(1) run] AwaitPrecompute by (simp add: animating_def)
  next
    case False
    show ?thesis by (rule animating_step [OF _ False]) (simp add: AwaitPrecompute animating_def)
  qed
  then show ?thesis by (rule anim_inv_idle)
next
  case (AwaitCommit c)
  then have run: "launch s \<noteq> NotRunning" by simp
  have "\<not> animating (launch (step e s))"
  proof (cases "e = LaunchClick")
    case True
    then show ?thesis
      using transitioning_step(3) [OF assms(1) run] AwaitCommit by (simp add: animating_def)
  next
    case False
    show ?thesis by (rule animating_step [OF _ False]) (simp add: AwaitCommit animating_def)
  qed
  then show ?thesis by (rule anim_inv_idle)
next
  case AwaitImage
  then have run: "launch s \<noteq> NotRunning" by simp
  have "\<not> animating (launch (step e s))"
  proof (cases "e = LaunchClick")
    case True
    then show ?thesis
      using transitioning_step(3) [OF assms(1) run] AwaitImage by (simp add: animating_def)
  next
    case False
    show ?thesis by (rule animating_step [OF _ False]) (simp add: AwaitImage animating_def)
  qed
  then show ?thesis by (rule anim_inv_idle)
qed

lemma anim_inv_run: "ctl_inv s \<Longrightarrow> anim_inv s \<Longrightarrow> anim_inv (run evs s)"
  by (induction evs arbitrary: s) (simp_all add: anim_inv_step ctl_inv_step)

lemma anim_inv_reachable: "anim_inv (run evs (init stored path))"
  by (rule anim_inv_run [OF ctl_inv_init]) (simp add: anim_inv_def init_view)


subsection \<open>More sample runs\<close>

lemma run_sample_failed:
  "run sample_failed (init None ''/'') =
     sample_launched
       \<lparr>launchButton := Some False, gridDisabled := False, rocketDisabled := False,
        rocketLaunching := False,
        requests := [(0, GetTranslations ''en''), (1, CommitWordcloud),
                     (2, PreviewWordcloud [''food'', ''music'', ''book''] ''en''),
                     (3, SubmitVote [''food'', ''music'', ''book''])],
        nextRequest := 4, alerts := [''Failed to submit vote. Please try again.''],
        launch := NotRunning\<rparr>"
proof -
  have e: "sample_failed =
      [GridClick btn_food, GridClick btn_music, GridClick btn_book, LaunchClick] @
      [AnimationEnd, Response 3 NotOk]"
    by (simp add: sample_failed_def)
  show ?thesis
    unfolding e run_append run_sample_launched
    by (simp add: sample_launched_def sample_page_def launch_defs)
qed

lemma run_sample_rejected:
  "run sample_rejected (init None ''/'') =
     sample_launched\<lparr>launch := AwaitAnimation [''food'', ''music'', ''book''] 1 Rejected\<rparr>"
proof -
  have e: "sample_rejected =
      [GridClick btn_food, GridClick btn_music, GridClick btn_book, LaunchClick] @
      [Response 2 NotOk]"
    by (simp add: sample_rejected_def)
  show ?thesis
    unfolding e run_append run_sample_launched
    by (simp add: sample_launched_def sample_page_def launch_defs)
qed

lemma run_sample_returned:
  "run sample_returned (init None ''/'') =
     sample_shown
       \<lparr>selectedItems := [], wordcloudReturnTimer := None, isWordcloudVisible := False,
        launchButton := Some False, gridDisabled := False, rocketDisabled := False,
        selectionHidden := False, wordcloudHidden := True, rocketLaunching := False,
        timers := [(1, LaunchFallback)], nextTimer := 4\<rparr>"
  unfolding sample_returned_def run_append run_sample_shown
  by (simp add: sample_shown_def sample_launched_def sample_page_def launch_defs)

section \<open>Claims\<close>

text \<open>
  C1. Starting from the empty selection, after any sequence of clicks on grid buttons
  the selection has at most 3 entries. A further click on a button whose key is not
  selected, with fewer than 3 entries, appends one entry for that button, and its slot is
  the least index below 3 that no entry uses; with 3 entries it changes nothing at all
  (and so shows no alert).
\<close>

theorem toggleItem_capacity_lowest_slot:
  assumes "selectedItems s0 = []"
  shows "length (selectedItems (toggleItems bs s0)) \<le> 3 \<and>
         (dataset_key b \<notin> key ` set (selectedItems (toggleItems bs s0)) \<longrightarrow>
            (length (selectedItems (toggleItems bs s0)) < 3 \<longrightarrow>
               (\<exists>ri. ri < 3 \<and>
                  ri \<notin> rocketIndex ` set (selectedItems (toggleItems bs s0)) \<and>
                  (\<forall>j<ri. j \<in> rocketIndex ` set (selectedItems (toggleItems bs s0))) \<and>
                  selectedItems (handleGridItemClick b (toggleItems bs s0)) =
                    selectedItems (toggleItems bs s0) @
                      [\<lparr>gridButton = b, rocketIndex = ri, key = dataset_key b\<rparr>])) \<and>
            (length (selectedItems (toggleItems bs s0)) = 3 \<longrightarrow>
               handleGridItemClick b (toggleItems bs s0) = toggleItems bs s0))"
proof -
  let ?s = "toggleItems bs s0"
  let ?sel = "selectedItems ?s"
  let ?u = "map rocketIndex ?sel"
  let ?r = "nextRocketIndex ?u 0"
  have "sel_inv (selectedItems s0)" using assms by (simp add: sel_inv_def)
  then have inv: "sel_inv ?sel" by (rule sel_inv_toggleItems)
  have len: "length ?sel \<le> 3" using inv by (rule sel_inv_length)
  have room: "\<exists>ri. ri < 3 \<and> ri \<notin> rocketIndex ` set ?sel \<and>
                (\<forall>j<ri. j \<in> rocketIndex ` set ?sel) \<and>
                selectedItems (handleGridItemClick b ?s) =
                  ?sel @ [\<lparr>gridButton = b, rocketIndex = ri, key = dataset_key b\<rparr>]"
    if new: "dataset_key b \<notin> key ` set ?sel" and lt: "length ?sel < 3"
  proof -
    have d: "distinct ?u" and b3: "\<forall>x\<in>set ?u. x < 3"
      using inv by (auto simp: sel_inv_def list_all_iff)
    have r3: "?r < 3" using lt by (intro nextRocketIndex_free [OF d b3]) simp
    have spec: "?r \<notin> set ?u \<or> 3 \<le> ?r" "\<forall>j. 0 \<le> j \<and> j < ?r \<longrightarrow> j \<in> set ?u"
      using nextRocketIndex_spec [of 0 ?u] by blast+
    have free: "?r \<notin> rocketIndex ` set ?sel" using spec(1) r3 by simp
    have least: "\<forall>j<?r. j \<in> rocketIndex ` set ?sel" using spec(2) by simp
    have "selectedItems (handleGridItemClick b ?s) =
            ?sel @ [\<lparr>gridButton = b, rocketIndex = ?r, key = dataset_key b\<rparr>]"
      using lt r3 by (simp add: handleGridItemClick_absent [OF new])
    with r3 free least show ?thesis by blast
  qed
  have full: "handleGridItemClick b ?s = ?s"
    if new: "dataset_key b \<notin> key ` set ?sel" and eq: "length ?sel = 3"
  proof -
    have h: "handleGridItemClick b ?s = updateGridStates ?s"
      using eq by (intro handleGridItemClick_full [OF new]) simp
    have "?s \<noteq> s0" using eq assms by auto
    with toggleItems_settled [of bs s0] have "updateGridStates ?s = ?s" by simp
    with h show ?thesis by simp
  qed
  from len room full show ?thesis by blast
qed


theorem toggleItem_capacity_lowest_slot_witness:
  "selectedItems (init None ''/'') = [] \<and>
   length (selectedItems (toggleItems
      [\<lparr>button_id = 1, dataset_key = ''food''\<rparr>, \<lparr>button_id = 2, dataset_key = ''music''\<rparr>]
      (init None ''/''))) < 3 \<and>
   selectedItems (handleGridItemClick \<lparr>button_id = 3, dataset_key = ''book''\<rparr>
      (toggleItems
        [\<lparr>button_id = 1, dataset_key = ''food''\<rparr>, \<lparr>button_id = 2, dataset_key = ''music''\<rparr>]
        (init None ''/''))) =
     [\<lparr>gridButton = \<lparr>button_id = 1, dataset_key = ''food''\<rparr>, rocketIndex = 0, key = ''food''\<rparr>,
      \<lparr>gridButton = \<lparr>button_id = 2, dataset_key = ''music''\<rparr>, rocketIndex = 1, key = ''music''\<rparr>,
      \<lparr>gridButton = \<lparr>button_id = 3, dataset_key = ''book''\<rparr>, rocketIndex = 2, key = ''book''\<rparr>] \<and>
   length (selectedItems (toggleItems
      [\<lparr>button_id = 1, dataset_key = ''food''\<rparr>, \<lparr>button_id = 2, dataset_key = ''music''\<rparr>,
       \<lparr>button_id = 3, dataset_key = ''book''\<rparr>]
      (init None ''/''))) = 3 \<and>
   handleGridItemClick \<lparr>button_id = 4, dataset_key = ''phone''\<rparr>
      (toggleItems
        [\<lparr>button_id = 1, dataset_key = ''food''\<rparr>, \<lparr>button_id = 2, dataset_key = ''music''\<rparr>,
         \<lparr>button_id = 3, dataset_key = ''book''\<rparr>]
        (init None ''/'')) =
    toggleItems
        [\<lparr>button_id = 1, dataset_key = ''food''\<rparr>, \<lparr>button_id = 2, dataset_key = ''music''\<rparr>,
         \<lparr>button_id = 3, dataset_key = ''book''\<rparr>]
        (init None ''/'')"
proof -
  let ?s0 = "init None ''/''"
  let ?a = "\<lparr>button_id = 1, dataset_key = ''food''\<rparr>"
  let ?b = "\<lparr>button_id = 2, dataset_key = ''music''\<rparr>"
  let ?c = "\<lparr>button_id = 3, dataset_key = ''book''\<rparr>"
  let ?d = "\<lparr>button_id = 4, dataset_key = ''phone''\<rparr>"
  have e: "selectedItems ?s0 = []" by (simp add: init_view)
  have ev: "nextRocketIndex [] 0 = 0" "nextRocketIndex [0] 0 = Suc 0"
    "nextRocketIndex [0, Suc 0] 0 = 2"
    by (simp_all add: nextRocketIndex.simps)
  have s2: "selectedItems (toggleItems [?a, ?b] ?s0) =
     [\<lparr>gridButton = ?a, rocketIndex = 0, key = ''food''\<rparr>,
      \<lparr>gridButton = ?b, rocketIndex = 1, key = ''music''\<rparr>]"
    by (simp add: handleGridItemClick_def Let_def e ev)
  have s3: "selectedItems (toggleItems [?a, ?b, ?c] ?s0) =
     [\<lparr>gridButton = ?a, rocketIndex = 0, key = ''food''\<rparr>,
      \<lparr>gridButton = ?b, rocketIndex = 1, key = ''music''\<rparr>,
      \<lparr>gridButton = ?c, rocketIndex = 2, key = ''book''\<rparr>]"
    by (simp add: handleGridItemClick_def Let_def e ev)
  from toggleItem_capacity_lowest_slot [OF e, of "[?a, ?b]" ?c]
  have "\<exists>ri. ri < 3 \<and> ri \<noteq> 0 \<and> ri \<noteq> 1 \<and>
     selectedItems (handleGridItemClick ?c (toggleItems [?a, ?b] ?s0)) =
       [\<lparr>gridButton = ?a, rocketIndex = 0, key = ''food''\<rparr>,
        \<lparr>gridButton = ?b, rocketIndex = 1, key = ''music''\<rparr>,
        \<lparr>gridButton = ?c, rocketIndex = ri, key = ''book''\<rparr>]"
    unfolding s2 by simp blast
  then obtain ri where ri: "ri < 3" "ri \<noteq> 0" "ri \<noteq> 1"
    "selectedItems (handleGridItemClick ?c (toggleItems [?a, ?b] ?s0)) =
       [\<lparr>gridButton = ?a, rocketIndex = 0, key = ''food''\<rparr>,
        \<lparr>gridButton = ?b, rocketIndex = 1, key = ''music''\<rparr>,
        \<lparr>gridButton = ?c, rocketIndex = ri, key = ''book''\<rparr>]" by blast
  from ri(1-3) have "ri = 2" by simp
  with ri(4) have third: "selectedItems (handleGridItemClick ?c (toggleItems [?a, ?b] ?s0)) =
       [\<lparr>gridButton = ?a, rocketIndex = 0, key = ''food''\<rparr>,
        \<lparr>gridButton = ?b, rocketIndex = 1, key = ''music''\<rparr>,
        \<lparr>gridButton = ?c, rocketIndex = 2, key = ''book''\<rparr>]" by simp
  from toggleItem_capacity_lowest_slot [OF e, of "[?a, ?b, ?c]" ?d]
  have full: "handleGridItemClick ?d (toggleItems [?a, ?b, ?c] ?s0) = toggleItems [?a, ?b, ?c] ?s0"
    unfolding s3 by simp
  show ?thesis using e s2 s3 third full by simp
qed



text \<open>
  C2. Take a reachable state with three entries selected and the launch button enabled,
  click the launch button, and let any events follow that contain no further click on
  the launch button. If the word cloud is shown after them, then among them are the end
  of the launch animation (the \<open>animationend\<close> event or the fallback timer of this
  launch) and the successful response to the precomputation request of this launch. As
  this holds for every such sequence, it holds for the one up to the moment the word
  cloud is first shown: both signals come before it, whichever comes first.
\<close>

theorem result_only_after_animation_and_precompute:
  assumes "s = run evs0 (init stored path)" and "launchButton s = Some False"
    and "length (selectedItems s) = 3" and "LaunchClick \<notin> set evs"
    and "isWordcloudVisible (run evs (step LaunchClick s))"
  shows "(AnimationEnd \<in> set evs \<or> TimerFire (nextTimer s) \<in> set evs) \<and>
         Response (nextRequest s) Ok \<in> set evs"
proof -
  have inv: "ctl_inv s" unfolding assms(1) by (rule ctl_inv_reachable)
  have nl: "\<not> locked s" using assms(2) by (simp add: locked_def)
  note idle = idle_unlocked [OF inv nl]
  have "\<not> isWordcloudPage s" using inv assms(2) by (auto simp: ctl_inv_def page_inv_def)
  with inv have up: "\<not> unloaded s" by (auto simp: ctl_inv_def page_inv_def)
  have s1: "step LaunchClick s = handleLaunchButtonClick s"
    using up assms(2) by (simp add: step_def)
  note nf = handleLaunchButtonClick_nf [OF assms(3)]
  have "awaited (nextTimer s) (nextRequest s) {} (step LaunchClick s)"
    unfolding s1 nf using idle(1) by (simp add: awaited_def promise_ok_def)
  from awaited_run [OF this assms(4)]
  have "awaited (nextTimer s) (nextRequest s) (set evs) (run evs (step LaunchClick s))" by simp
  with assms(5) show ?thesis by (simp add: awaited_def)
qed


theorem result_only_after_animation_and_precompute_witness:
  "launchButton (run [GridClick btn_food, GridClick btn_music, GridClick btn_book]
                   (init None ''/'')) = Some False \<and>
   length (selectedItems (run [GridClick btn_food, GridClick btn_music, GridClick btn_book]
                   (init None ''/''))) = 3 \<and>
   LaunchClick \<notin> set [AnimationEnd, Response 3 Ok, Response 2 Ok, Response 4 Ok, ImageLoad True] \<and>
   isWordcloudVisible
     (run [AnimationEnd, Response 3 Ok, Response 2 Ok, Response 4 Ok, ImageLoad True]
        (step LaunchClick
           (run [GridClick btn_food, GridClick btn_music, GridClick btn_book]
              (init None ''/'')))) \<and>
   LaunchClick \<notin> set [Response 2 Ok, AnimationEnd, Response 3 Ok, Response 4 Ok, ImageLoad True] \<and>
   isWordcloudVisible
     (run [Response 2 Ok, AnimationEnd, Response 3 Ok, Response 4 Ok, ImageLoad True]
        (step LaunchClick
           (run [GridClick btn_food, GridClick btn_music, GridClick btn_book]
              (init None ''/'')))) \<and>
   (AnimationEnd \<in> set [AnimationEnd, Response 3 Ok, Response 2 Ok, Response 4 Ok, ImageLoad True] \<or>
    TimerFire (nextTimer (run [GridClick btn_food, GridClick btn_music, GridClick btn_book]
                   (init None ''/'')))
      \<in> set [AnimationEnd, Response 3 Ok, Response 2 Ok, Response 4 Ok, ImageLoad True]) \<and>
   Response (nextRequest (run [GridClick btn_food, GridClick btn_music, GridClick btn_book]
                   (init None ''/''))) Ok
     \<in> set [AnimationEnd, Response 3 Ok, Response 2 Ok, Response 4 Ok, ImageLoad True]"
proof -
  let ?s = "run [GridClick btn_food, GridClick btn_music, GridClick btn_book] (init None ''/'')"
  let ?a = "[AnimationEnd, Response 3 Ok, Response 2 Ok, Response 4 Ok, ImageLoad True]"
  let ?b = "[Response 2 Ok, AnimationEnd, Response 3 Ok, Response 4 Ok, ImageLoad True]"
  have b: "launchButton ?s = Some False" and l: "length (selectedItems ?s) = 3"
    unfolding run_sample_picked by (simp_all add: sample_page_def sample_picked_def)
  have s1: "step LaunchClick ?s = sample_launched"
    unfolding run_sample_picked by (rule step_sample_launched)
  have na: "LaunchClick \<notin> set ?a" and nb: "LaunchClick \<notin> set ?b" by simp_all
  have va: "isWordcloudVisible (run ?a (step LaunchClick ?s))"
    unfolding s1 run_sample_shown_tail by (simp add: sample_shown_def)
  have vb: "isWordcloudVisible (run ?b (step LaunchClick ?s))"
    unfolding s1 by (simp add: sample_launched_def sample_page_def launch_defs)
  from result_only_after_animation_and_precompute [OF refl b l na va] b l na va nb vb
  show ?thesis by blast
qed


text \<open>
  C3, as amended. In any reachable state with a launch in flight: when the vote is
  answered with a failure, or the awaited precomputation fails, the \<open>catch\<close> block runs
  at that event and the selection view is restored: no launch in flight, the word cloud
  not shown, the same three entries selected, the grid, rocket and launch buttons
  enabled, and an alert shown. A precomputation that fails earlier, during the animation
  or while the vote is awaited, does not abort the launch at that event: the rejection is
  held. Whatever events follow, either the launch is still in flight with the rejection
  held, the word cloud not shown, every button disabled and the selection unchanged, or
  the vote has been answered in the meantime, and at that answer, whatever it was, the
  selection view was restored with the selection unchanged. While the rejection is held
  during the animation, the end of the animation and its fallback timer each submit the
  vote. No event changes the selection while a launch is in flight, so the entries are
  those of the submit.
\<close>

theorem transition_failure_aborts_when_awaited:
  assumes "s = run evs0 (init stored path)"
  shows "(launch s = AwaitVote vid p \<and> (out \<noteq> Ok \<or> p = Rejected) \<longrightarrow>
            restored s (step (Response vid out) s)) \<and>
         (launch s = AwaitPrecompute rid \<and> out \<noteq> Ok \<longrightarrow>
            restored s (step (Response rid out) s)) \<and>
         ((launch s = AwaitAnimation ks tid (Pending rid) \<or>
           launch s = AwaitVote vid (Pending rid) \<and> rid \<noteq> vid) \<and> out \<noteq> Ok \<longrightarrow>
            (rejection_held (run evs (step (Response rid out) s)) \<and>
             \<not> isWordcloudVisible (run evs (step (Response rid out) s)) \<and>
             locked (run evs (step (Response rid out) s)) \<and>
             selectedItems (run evs (step (Response rid out) s)) = selectedItems s) \<or>
            (\<exists>pre v out' post. evs = pre @ Response v out' # post \<and>
               launch (run pre (step (Response rid out) s)) = AwaitVote v Rejected \<and>
               selectedItems (run pre (step (Response rid out) s)) = selectedItems s \<and>
               restored (run pre (step (Response rid out) s))
                 (step (Response v out') (run pre (step (Response rid out) s))))) \<and>
         (launch s = AwaitAnimation ks tid Rejected \<longrightarrow>
            launch (step AnimationEnd s) = AwaitVote (nextRequest s) Rejected \<and>
            requests (step AnimationEnd s) = requests s @ [(nextRequest s, SubmitVote ks)] \<and>
            launch (step (TimerFire tid) s) = AwaitVote (nextRequest s) Rejected \<and>
            requests (step (TimerFire tid) s) = requests s @ [(nextRequest s, SubmitVote ks)]) \<and>
         (launch s \<noteq> NotRunning \<longrightarrow>
            selectedItems (step e s) = selectedItems s \<and> length (selectedItems s) = 3)"
proof -
  have inv: "ctl_inv s" unfolding assms by (rule ctl_inv_reachable)
  have ai: "anim_inv s" unfolding assms by (rule anim_inv_reachable)
  have vote: "restored s (step (Response vid out) s)"
    if h: "launch s = AwaitVote vid p \<and> (out \<noteq> Ok \<or> p = Rejected)"
  proof -
    from h have run: "launch s \<noteq> NotRunning" by simp
    have "launchSettled vid out s = launchFailed s"
      using h by (cases out) (auto simp: launchSettled_def launchVoted_def)
    with inv run show ?thesis by (rule restored_launchFailed)
  qed
  have pre: "restored s (step (Response rid out) s)"
    if h: "launch s = AwaitPrecompute rid \<and> out \<noteq> Ok"
  proof -
    from h have run: "launch s \<noteq> NotRunning" by simp
    have "launchSettled rid out s = launchFailed s"
      using h by (cases out) (auto simp: launchSettled_def settle_def)
    with inv run show ?thesis by (rule restored_launchFailed)
  qed
  have held: "(rejection_held (run evs (step (Response rid out) s)) \<and>
             \<not> isWordcloudVisible (run evs (step (Response rid out) s)) \<and>
             locked (run evs (step (Response rid out) s)) \<and>
             selectedItems (run evs (step (Response rid out) s)) = selectedItems s) \<or>
            (\<exists>pre v out' post. evs = pre @ Response v out' # post \<and>
               launch (run pre (step (Response rid out) s)) = AwaitVote v Rejected \<and>
               selectedItems (run pre (step (Response rid out) s)) = selectedItems s \<and>
               restored (run pre (step (Response rid out) s))
                 (step (Response v out') (run pre (step (Response rid out) s))))"
    if h: "(launch s = AwaitAnimation ks tid (Pending rid) \<or>
            launch s = AwaitVote vid (Pending rid) \<and> rid \<noteq> vid) \<and> out \<noteq> Ok"
  proof -
    let ?s1 = "step (Response rid out) s"
    from h have run: "launch s \<noteq> NotRunning" by auto
    have "rejection_held (launchSettled rid out s)"
      using h by (cases out) (auto simp: rejection_held_def launchSettled_def settle_def)
    then have h1: "rejection_held ?s1"
      using transitioning_step(7) [OF inv run, of rid out] by (simp add: rejection_held_def)
    have inv1: "ctl_inv ?s1" using inv by (rule ctl_inv_step)
    have sel1: "selectedItems ?s1 = selectedItems s"
      by (rule transition_keeps_selection [OF inv run])
    from held_run [OF inv1 h1, of evs] show ?thesis
    proof
      assume a: "rejection_held (run evs ?s1) \<and> selectedItems (run evs ?s1) = selectedItems ?s1"
      then have r: "launch (run evs ?s1) \<noteq> NotRunning" by (auto simp: rejection_held_def)
      have i: "ctl_inv (run evs ?s1)" using inv1 by (rule ctl_inv_run)
      from a sel1 transitioning(1,2) [OF i r] show ?thesis by simp
    next
      assume "\<exists>pre v out' post. evs = pre @ Response v out' # post \<and>
            launch (run pre ?s1) = AwaitVote v Rejected \<and>
            selectedItems (run pre ?s1) = selectedItems ?s1 \<and>
            restored (run pre ?s1) (step (Response v out') (run pre ?s1))"
      then show ?thesis using sel1 by auto
    qed
  qed
  have anim: "launch (step AnimationEnd s) = AwaitVote (nextRequest s) Rejected \<and>
            requests (step AnimationEnd s) = requests s @ [(nextRequest s, SubmitVote ks)] \<and>
            launch (step (TimerFire tid) s) = AwaitVote (nextRequest s) Rejected \<and>
            requests (step (TimerFire tid) s) = requests s @ [(nextRequest s, SubmitVote ks)]"
    if h: "launch s = AwaitAnimation ks tid Rejected"
  proof -
    from ai h have a: "rocketLaunching s" "map_of (timers s) tid = Some LaunchFallback"
      by (simp_all add: anim_inv_def)
    from animation_resolved [OF inv h a] animation_resolved_votes [OF inv h a]
    show ?thesis by simp
  qed
  have keep: "selectedItems (step e s) = selectedItems s \<and> length (selectedItems s) = 3"
    if run: "launch s \<noteq> NotRunning"
    using transition_keeps_selection [OF inv run] running(4) [OF inv run] by simp
  from vote pre held anim keep show ?thesis by blast
qed

theorem transition_failure_aborts_when_awaited_witness:
  "launch (run [AnimationEnd] sample_launched) = AwaitVote 3 (Pending 2) \<and>
   restored (run [AnimationEnd] sample_launched)
     (step (Response 3 NotOk) (run [AnimationEnd] sample_launched)) \<and>
   selectedItems (step (Response 3 NotOk) (run [AnimationEnd] sample_launched)) =
     sample_picked \<and>
   launch (run [AnimationEnd, Response 3 Ok] sample_launched) = AwaitPrecompute 2 \<and>
   restored (run [AnimationEnd, Response 3 Ok] sample_launched)
     (step (Response 2 NetworkError) (run [AnimationEnd, Response 3 Ok] sample_launched)) \<and>
   launch sample_launched = AwaitAnimation [''food'', ''music'', ''book''] 1 (Pending 2) \<and>
   rejection_held (run [LangClick ''he'', AnimationEnd] (step (Response 2 NotOk) sample_launched)) \<and>
   locked (run [LangClick ''he'', AnimationEnd] (step (Response 2 NotOk) sample_launched)) \<and>
   selectedItems (run [LangClick ''he'', AnimationEnd] (step (Response 2 NotOk) sample_launched)) =
     selectedItems sample_launched \<and>
   (\<exists>pre v out' post. [AnimationEnd, Response 3 Ok] = pre @ Response v out' # post \<and>
      launch (run pre (step (Response 2 NotOk) sample_launched)) = AwaitVote v Rejected \<and>
      selectedItems (run pre (step (Response 2 NotOk) sample_launched)) =
        selectedItems sample_launched \<and>
      restored (run pre (step (Response 2 NotOk) sample_launched))
        (step (Response v out') (run pre (step (Response 2 NotOk) sample_launched)))) \<and>
   launch (run [AnimationEnd] sample_launched) = AwaitVote 3 (Pending 2) \<and>
   rejection_held (run [] (step (Response 2 NetworkError) (run [AnimationEnd] sample_launched))) \<and>
   launch (run [Response 2 NotOk] sample_launched) =
     AwaitAnimation [''food'', ''music'', ''book''] 1 Rejected \<and>
   launch (step AnimationEnd (run [Response 2 NotOk] sample_launched)) = AwaitVote 3 Rejected \<and>
   launch (step (TimerFire 1) (run [Response 2 NotOk] sample_launched)) = AwaitVote 3 Rejected \<and>
   requests (step (TimerFire 1) (run [Response 2 NotOk] sample_launched)) =
     requests (run [Response 2 NotOk] sample_launched) @
       [(3, SubmitVote [''food'', ''music'', ''book''])] \<and>
   restored (run [Response 2 NotOk, TimerFire 1] sample_launched)
     (step (Response 3 Ok) (run [Response 2 NotOk, TimerFire 1] sample_launched)) \<and>
   selectedItems (step (GridClick btn_food) sample_launched) = selectedItems sample_launched"
proof -
  let ?pre = "[GridClick btn_food, GridClick btn_music, GridClick btn_book, LaunchClick]"
  let ?ks = "[''food'', ''music'', ''book'']"
  have reach: "run (?pre @ evs) (init None ''/'') = run evs sample_launched" for evs
    by (simp only: run_append run_sample_launched)
  have l0: "launch sample_launched = AwaitAnimation ?ks 1 (Pending 2)"
    by (simp add: sample_launched_def)
  have lv: "launch (run [AnimationEnd] sample_launched) = AwaitVote 3 (Pending 2)"
    by (simp add: sample_launched_def sample_page_def launch_defs setLanguage_frame)
  have lp: "launch (run [AnimationEnd, Response 3 Ok] sample_launched) = AwaitPrecompute 2"
    by (simp add: sample_launched_def sample_page_def launch_defs setLanguage_frame)
  have lr: "launch (run [Response 2 NotOk] sample_launched) = AwaitAnimation ?ks 1 Rejected"
    by (simp add: sample_launched_def sample_page_def launch_defs setLanguage_frame)
  have lf: "launch (run [Response 2 NotOk, TimerFire 1] sample_launched) = AwaitVote 3 Rejected"
    by (simp add: sample_launched_def sample_page_def launch_defs setLanguage_frame)
  have nr: "nextRequest (run [Response 2 NotOk] sample_launched) = 3"
    by (simp add: sample_launched_def sample_page_def launch_defs setLanguage_frame)
  have sv: "selectedItems (run [AnimationEnd] sample_launched) = sample_picked"
    by (simp add: sample_launched_def sample_page_def launch_defs setLanguage_frame)
  have over: "\<not> rejection_held
      (run [AnimationEnd, Response 3 Ok] (step (Response 2 NotOk) sample_launched))"
    by (simp add: rejection_held_def sample_launched_def sample_page_def launch_defs)
  note a = transition_failure_aborts_when_awaited
    [OF reach [of "[AnimationEnd]", symmetric], of 3 "Pending 2" NotOk 2]
  note a' = transition_failure_aborts_when_awaited
    [OF reach [of "[AnimationEnd]", symmetric], of 3 _ NetworkError 2 _ _ "[]"]
  note b = transition_failure_aborts_when_awaited
    [OF reach [of "[AnimationEnd, Response 3 Ok]", symmetric], of _ _ NetworkError 2]
  note c = transition_failure_aborts_when_awaited
    [OF run_sample_launched [symmetric], of _ _ NotOk 2 ?ks 1 "[LangClick ''he'', AnimationEnd]"
      "GridClick btn_food"]
  note c' = transition_failure_aborts_when_awaited
    [OF run_sample_launched [symmetric], of _ _ NotOk 2 ?ks 1 "[AnimationEnd, Response 3 Ok]"]
  note d = transition_failure_aborts_when_awaited
    [OF reach [of "[Response 2 NotOk]", symmetric], of _ _ _ _ ?ks 1]
  note e = transition_failure_aborts_when_awaited
    [OF reach [of "[Response 2 NotOk, TimerFire 1]", symmetric], of 3 Rejected Ok]
  have r1: "restored (run [AnimationEnd] sample_launched)
      (step (Response 3 NotOk) (run [AnimationEnd] sample_launched))"
    using a lv by simp
  then have r1s: "selectedItems (step (Response 3 NotOk) (run [AnimationEnd] sample_launched)) =
      sample_picked"
    using sv by (simp add: restored_def)
  have r2: "restored (run [AnimationEnd, Response 3 Ok] sample_launched)
      (step (Response 2 NetworkError) (run [AnimationEnd, Response 3 Ok] sample_launched))"
    using b lp by simp
  have ex: "[LangClick ''he'', AnimationEnd] \<noteq> pre @ Response v out' # post" for pre v out' post
  proof
    assume "[LangClick ''he'', AnimationEnd] = pre @ Response v out' # post"
    then have "Response v out' \<in> set [LangClick ''he'', AnimationEnd]" by simp
    then show False by simp
  qed
  have r3: "rejection_held
        (run [LangClick ''he'', AnimationEnd] (step (Response 2 NotOk) sample_launched)) \<and>
      locked (run [LangClick ''he'', AnimationEnd] (step (Response 2 NotOk) sample_launched)) \<and>
      selectedItems
        (run [LangClick ''he'', AnimationEnd] (step (Response 2 NotOk) sample_launched)) =
        selectedItems sample_launched"
    using c l0 ex by simp
  have r4: "\<exists>pre v out' post. [AnimationEnd, Response 3 Ok] = pre @ Response v out' # post \<and>
      launch (run pre (step (Response 2 NotOk) sample_launched)) = AwaitVote v Rejected \<and>
      selectedItems (run pre (step (Response 2 NotOk) sample_launched)) =
        selectedItems sample_launched \<and>
      restored (run pre (step (Response 2 NotOk) sample_launched))
        (step (Response v out') (run pre (step (Response 2 NotOk) sample_launched)))"
    using c' l0 over by simp
  have r5: "rejection_held
      (run [] (step (Response 2 NetworkError) (run [AnimationEnd] sample_launched)))"
    using a' lv by simp
  have r6: "launch (step AnimationEnd (run [Response 2 NotOk] sample_launched)) =
        AwaitVote 3 Rejected"
    "launch (step (TimerFire 1) (run [Response 2 NotOk] sample_launched)) = AwaitVote 3 Rejected"
    "requests (step (TimerFire 1) (run [Response 2 NotOk] sample_launched)) =
       requests (run [Response 2 NotOk] sample_launched) @ [(3, SubmitVote ?ks)]"
    using d lr nr by simp_all
  have r7: "restored (run [Response 2 NotOk, TimerFire 1] sample_launched)
      (step (Response 3 Ok) (run [Response 2 NotOk, TimerFire 1] sample_launched))"
    using e lf by simp
  have r8: "selectedItems (step (GridClick btn_food) sample_launched) =
      selectedItems sample_launched"
    using c l0 by simp
  from lv r1 r1s lp r2 l0 r3 r4 r5 lr r6 r7 r8 show ?thesis by blast
qed

text \<open>
  C3 as stated fails on the sample page: when the precomputation is answered with a
  failure during the animation, the launch stays in flight, every button stays disabled
  and no alert is shown; the end of the animation then submits the vote, and the launch
  is in flight still, also after the fallback timer and a language switch.
\<close>

theorem precompute_rejection_held_counterexample:
  "launch (run sample_rejected (init None ''/'')) =
     AwaitAnimation [''food'', ''music'', ''book''] 1 Rejected \<and>
   launchButton (run sample_rejected (init None ''/'')) = Some True \<and>
   gridDisabled (run sample_rejected (init None ''/'')) \<and>
   rocketDisabled (run sample_rejected (init None ''/'')) \<and>
   alerts (run sample_rejected (init None ''/'')) = [] \<and>
   launch (step AnimationEnd (run sample_rejected (init None ''/''))) = AwaitVote 3 Rejected \<and>
   launchButton (step AnimationEnd (run sample_rejected (init None ''/''))) = Some True \<and>
   gridDisabled (step AnimationEnd (run sample_rejected (init None ''/''))) \<and>
   alerts (step AnimationEnd (run sample_rejected (init None ''/''))) = [] \<and>
   requests (step AnimationEnd (run sample_rejected (init None ''/''))) =
     requests (run sample_rejected (init None ''/'')) @
       [(3, SubmitVote [''food'', ''music'', ''book''])] \<and>
   launch (run [AnimationEnd, TimerFire 1, LangClick ''he'']
     (run sample_rejected (init None ''/''))) = AwaitVote 3 Rejected \<and>
   launchButton (run [AnimationEnd, TimerFire 1, LangClick ''he'']
     (run sample_rejected (init None ''/''))) = Some True \<and>
   alerts (run [AnimationEnd, TimerFire 1, LangClick ''he'']
     (run sample_rejected (init None ''/''))) = []"
  unfolding run_sample_rejected
  by (simp add: sample_launched_def sample_page_def launch_defs setLanguage_frame)

text \<open>
  C4, as amended. A click on the enabled launch button with three entries selected
  issues the precomputation request at once, with the keys of the three entries and the
  current language, and starts the launch animation. The vote is not submitted then: it
  is submitted, with the same three keys, when the animation ends or its fallback timer
  fires, and no other event in between issues it.
\<close>

theorem precompute_on_entry_vote_after_animation:
  assumes "s = run evs0 (init stored path)" and "launchButton s = Some False"
    and "length (selectedItems s) = 3"
    and "s1 = step LaunchClick s" and "ks = map key (selectedItems s)"
    and "t = run evs s1"
  shows "requests s1 = requests s @ [(nextRequest s, PreviewWordcloud ks (currentLanguage s))] \<and>
         launch s1 = AwaitAnimation ks (nextTimer s) (Pending (nextRequest s)) \<and>
         rocketLaunching s1 \<and>
         (AnimationEnd \<notin> set evs \<and> TimerFire (nextTimer s) \<notin> set evs \<longrightarrow>
            (\<exists>p. launch t = AwaitAnimation ks (nextTimer s) p) \<and>
            other_requests t = other_requests s1 \<and>
            requests (step AnimationEnd t) = requests t @ [(nextRequest t, SubmitVote ks)] \<and>
            requests (step (TimerFire (nextTimer s)) t) =
              requests t @ [(nextRequest t, SubmitVote ks)])"
proof -
  have inv: "ctl_inv s" unfolding assms(1) by (rule ctl_inv_reachable)
  have "\<not> isWordcloudPage s" using inv assms(2) by (auto simp: ctl_inv_def page_inv_def)
  with inv have up: "\<not> unloaded s" by (auto simp: ctl_inv_def page_inv_def)
  have s1: "s1 = handleLaunchButtonClick s"
    unfolding assms(4) using up assms(2) by (simp add: step_def)
  note nf = handleLaunchButtonClick_nf [OF assms(3)]
  have inv1: "ctl_inv s1"
    unfolding s1 using inv assms(2) by (rule ctl_inv_handleLaunchButtonClick)
  have req: "requests s1 = requests s @ [(nextRequest s, PreviewWordcloud ks (currentLanguage s))]"
    unfolding s1 nf assms(5) by simp
  have pc: "launch s1 = AwaitAnimation ks (nextTimer s) (Pending (nextRequest s))"
    unfolding s1 nf assms(5) by simp
  have rl: "rocketLaunching s1" unfolding s1 nf by simp
  have fresh: "nextTimer s \<notin> fst ` set (timers s)"
    using inv by (auto simp: ctl_inv_def timers_fresh_def list_all_iff)
  have tm: "map_of (timers s1) (nextTimer s) = Some LaunchFallback"
    unfolding s1 nf using fresh by (simp add: map_of_eq_None_iff [THEN iffD2] map_add_def)
  have during: "(\<exists>p. launch t = AwaitAnimation ks (nextTimer s) p) \<and>
      other_requests t = other_requests s1 \<and>
      requests (step AnimationEnd t) = requests t @ [(nextRequest t, SubmitVote ks)] \<and>
      requests (step (TimerFire (nextTimer s)) t) = requests t @ [(nextRequest t, SubmitVote ks)]"
    if h: "AnimationEnd \<notin> set evs \<and> TimerFire (nextTimer s) \<notin> set evs"
  proof -
    from h have na: "AnimationEnd \<notin> set evs" and nt: "TimerFire (nextTimer s) \<notin> set evs"
      by simp_all
    from awaiting_animation_run [OF inv1 pc rl tm na nt]
    obtain p where w: "launch t = AwaitAnimation ks (nextTimer s) p" "rocketLaunching t"
      "map_of (timers t) (nextTimer s) = Some LaunchFallback"
      "other_requests t = other_requests s1"
      unfolding assms(6) by blast
    have invt: "ctl_inv t" unfolding assms(6) using inv1 by (rule ctl_inv_run)
    from animation_resolved_votes [OF invt w(1-3)] w(1,4) show ?thesis by blast
  qed
  from req pc rl during show ?thesis by blast
qed

theorem precompute_on_entry_vote_after_animation_witness:
  "launchButton (run [GridClick btn_food, GridClick btn_music, GridClick btn_book]
                   (init None ''/'')) = Some False \<and>
   length (selectedItems (run [GridClick btn_food, GridClick btn_music, GridClick btn_book]
                   (init None ''/''))) = 3 \<and>
   map snd (requests (step LaunchClick
      (run [GridClick btn_food, GridClick btn_music, GridClick btn_book] (init None ''/'')))) =
     [GetTranslations ''en'', CommitWordcloud,
      PreviewWordcloud [''food'', ''music'', ''book''] ''en''] \<and>
   AnimationEnd \<notin> set [Response 2 Ok, LangClick ''he''] \<and>
   TimerFire 1 \<notin> set [Response 2 Ok, LangClick ''he''] \<and>
   launch (run [Response 2 Ok, LangClick ''he''] sample_launched) =
     AwaitAnimation [''food'', ''music'', ''book''] 1 Fulfilled \<and>
   other_requests (run [Response 2 Ok, LangClick ''he''] sample_launched) =
     [CommitWordcloud, PreviewWordcloud [''food'', ''music'', ''book''] ''en''] \<and>
   other_requests (step AnimationEnd (run [Response 2 Ok, LangClick ''he''] sample_launched)) =
     [CommitWordcloud, PreviewWordcloud [''food'', ''music'', ''book''] ''en'',
      SubmitVote [''food'', ''music'', ''book'']] \<and>
   other_requests (step (TimerFire 1) (run [Response 2 Ok, LangClick ''he''] sample_launched)) =
     [CommitWordcloud, PreviewWordcloud [''food'', ''music'', ''book''] ''en'',
      SubmitVote [''food'', ''music'', ''book'']]"
proof -
  let ?s = "run [GridClick btn_food, GridClick btn_music, GridClick btn_book] (init None ''/'')"
  let ?evs = "[Response 2 Ok, LangClick ''he'']"
  let ?t = "run ?evs sample_launched"
  have b: "launchButton ?s = Some False" and l: "length (selectedItems ?s) = 3"
    unfolding run_sample_picked by (simp_all add: sample_page_def sample_picked_def)
  have s1: "sample_launched = step LaunchClick ?s"
    unfolding run_sample_picked by (rule step_sample_launched [symmetric])
  have ks: "[''food'', ''music'', ''book''] = map key (selectedItems ?s)"
    and nt: "nextTimer ?s = 1"
    unfolding run_sample_picked by (simp_all add: sample_page_def sample_picked_def)
  have r1: "map snd (requests (step LaunchClick ?s)) =
      [GetTranslations ''en'', CommitWordcloud,
       PreviewWordcloud [''food'', ''music'', ''book''] ''en'']"
    unfolding s1 [symmetric] by (simp add: sample_launched_def)
  have na: "AnimationEnd \<notin> set ?evs" and nf: "TimerFire 1 \<notin> set ?evs" by simp_all
  have o1: "other_requests sample_launched =
      [CommitWordcloud, PreviewWordcloud [''food'', ''music'', ''book''] ''en'']"
    by (simp add: other_requests_def sample_launched_def)
  have lt: "launch ?t = AwaitAnimation [''food'', ''music'', ''book''] 1 Fulfilled"
    by (simp add: sample_launched_def sample_page_def launch_defs setLanguage_def)
  note t = precompute_on_entry_vote_after_animation [OF refl b l s1 ks refl, of ?evs]
  from t na nf have ot: "other_requests ?t = other_requests sample_launched"
    and va: "requests (step AnimationEnd ?t) =
      requests ?t @ [(nextRequest ?t, SubmitVote [''food'', ''music'', ''book''])]"
    and vf: "requests (step (TimerFire 1) ?t) =
      requests ?t @ [(nextRequest ?t, SubmitVote [''food'', ''music'', ''book''])]"
    unfolding nt by blast+
  have oa: "other_requests (step AnimationEnd ?t) =
      other_requests ?t @ [SubmitVote [''food'', ''music'', ''book'']]"
    unfolding other_requests_def va by simp
  have of': "other_requests (step (TimerFire 1) ?t) =
      other_requests ?t @ [SubmitVote [''food'', ''music'', ''book'']]"
    unfolding other_requests_def vf by simp
  from b l r1 na nf lt ot oa of' o1 show ?thesis by simp
qed

text \<open>
  C4 as stated fails on the sample page: right after the click on the launch button the
  precomputation request has been issued and the vote has not.
\<close>

theorem vote_fired_on_entry_counterexample:
  "\<not> (PreviewWordcloud [''food'', ''music'', ''book''] ''en''
        \<in> snd ` set (requests
            (run [GridClick btn_food, GridClick btn_music, GridClick btn_book, LaunchClick]
               (init None ''/''))) \<and>
      SubmitVote [''food'', ''music'', ''book'']
        \<in> snd ` set (requests
            (run [GridClick btn_food, GridClick btn_music, GridClick btn_book, LaunchClick]
               (init None ''/''))))"
  unfolding run_sample_launched by (simp add: sample_launched_def sample_page_def)


text \<open>
  C5, as amended. At every reachable state of the index page, three entries are selected
  if and only if exactly three distinct keys are selected. Outside the selection view (a
  launch in flight, the word cloud shown, or a return fading out) the launch button is
  disabled and three entries are selected. In the selection view the grid and rocket
  buttons are enabled, and the launch button is enabled if and only if three entries are
  selected, the one possible exception being an enabled launch button while nothing is
  selected. There is no exception before the word cloud has first been shown, nor right
  after a click on a grid button or on an occupied rocket slot. A click on the launch
  button with three entries selected leaves the selection view: the launch button is
  disabled and the three entries stay selected.
\<close>

theorem submit_enabled_iff_full_while_selecting:
  assumes "s = run evs (init stored path)" and "path \<noteq> ''/wordcloud''"
  shows "((length (selectedItems s) = 3) = (card (key ` set (selectedItems s)) = 3)) \<and>
         (\<not> selecting s \<longrightarrow> launchButton s = Some True \<and> length (selectedItems s) = 3) \<and>
         (selecting s \<longrightarrow>
            \<not> gridDisabled s \<and> \<not> rocketDisabled s \<and>
            ((launchButton s = Some False) = (length (selectedItems s) = 3) \<or>
             selectedItems s = [] \<and> launchButton s = Some False)) \<and>
         (selecting s \<and> ImageLoad True \<notin> set evs \<longrightarrow>
            (launchButton s = Some False) = (length (selectedItems s) = 3)) \<and>
         (selecting s \<longrightarrow>
            (launchButton (step (GridClick b) s) = Some False) =
              (length (selectedItems (step (GridClick b) s)) = 3)) \<and>
         (selecting s \<and> ri \<in> rocketIndex ` set (selectedItems s) \<longrightarrow>
            (launchButton (step (RocketClick ri) s) = Some False) =
              (length (selectedItems (step (RocketClick ri) s)) = 3)) \<and>
         (selecting s \<and> length (selectedItems s) = 3 \<longrightarrow>
            \<not> selecting (step LaunchClick s) \<and> launchButton (step LaunchClick s) = Some True \<and>
            length (selectedItems (step LaunchClick s)) = 3)"
proof -
  have inv: "ctl_inv s" unfolding assms(1) by (rule ctl_inv_reachable)
  have bi: "button_inv (ImageLoad True \<in> set evs) s"
    unfolding assms(1) by (rule button_inv_reachable [OF assms(2)])
  have up: "\<not> unloaded s"
  proof
    assume "unloaded s"
    with inv have "launchButton s = None" by (auto simp: ctl_inv_def page_inv_def)
    with bi show False by (simp add: button_inv_def)
  qed
  note sc = selecting_control [OF inv]
  have c1: "(length (selectedItems s) = 3) = (card (key ` set (selectedItems s)) = 3)"
    using inv by (intro keys_card) (simp add: ctl_inv_def)
  have c2: "launchButton s = Some True \<and> length (selectedItems s) = 3" if "\<not> selecting s"
    using not_selecting_locked [OF inv that] by (simp add: locked_def)
  have c3: "\<not> gridDisabled s \<and> \<not> rocketDisabled s \<and>
      ((launchButton s = Some False) = (length (selectedItems s) = 3) \<or>
       selectedItems s = [] \<and> launchButton s = Some False)" if "selecting s"
    using bi that sc by (auto simp: button_inv_def)
  have c4: "(launchButton s = Some False) = (length (selectedItems s) = 3)"
    if "selecting s \<and> ImageLoad True \<notin> set evs"
    using bi that sc by (auto simp: button_inv_def)
  have sel': "selecting (updateLaunchButtonState (s\<lparr>selectedItems := sel\<rparr>)) \<and>
      (launchButton (updateLaunchButtonState (s\<lparr>selectedItems := sel\<rparr>)) = Some False) =
      (length (selectedItems (updateLaunchButtonState (s\<lparr>selectedItems := sel\<rparr>))) = 3)"
    if "selecting s" for sel
  proof -
    from bi obtain d where "launchButton s = Some d" by (auto simp: button_inv_def)
    then show ?thesis
      unfolding updateLaunchButtonState_nf using that by (simp add: selecting_def)
  qed
  have c5: "(launchButton (step (GridClick b) s) = Some False) =
      (length (selectedItems (step (GridClick b) s)) = 3)" if "selecting s"
  proof -
    from c3 [OF that] up
    have "step (GridClick b) s = handleGridItemClick b s" by (simp add: step_def receivesClick_def)
    then show ?thesis
      using sel' [OF that, of "selectedItems (handleGridItemClick b s)"]
        handleGridItemClick_nf [of b s] by simp
  qed
  have c6: "(launchButton (step (RocketClick ri) s) = Some False) =
      (length (selectedItems (step (RocketClick ri) s)) = 3)"
    if h: "selecting s \<and> ri \<in> rocketIndex ` set (selectedItems s)"
  proof -
    from h have sg: "selecting s" and m: "ri \<in> rocketIndex ` set (selectedItems s)" by simp_all
    from c3 [OF sg] up
    have st: "step (RocketClick ri) s = handleRocketBlockClick ri s"
      by (simp add: step_def receivesClick_def)
    have "findIndex (\<lambda>it. rocketIndex it = ri) (selectedItems s) \<noteq> - 1"
      unfolding findIndex_none using m by auto
    then have "handleRocketBlockClick ri s = updateLaunchButtonState
        (s\<lparr>selectedItems := selectedItems (handleRocketBlockClick ri s)\<rparr>)"
      by (simp add: handleRocketBlockClick_def Let_def updateGridStates_def)
    then show ?thesis
      using sel' [OF sg, of "selectedItems (handleRocketBlockClick ri s)"] st by simp
  qed
  have c7: "\<not> selecting (step LaunchClick s) \<and> launchButton (step LaunchClick s) = Some True \<and>
      length (selectedItems (step LaunchClick s)) = 3"
    if h: "selecting s \<and> length (selectedItems s) = 3"
  proof -
    from h have sg: "selecting s" and len: "length (selectedItems s) = 3" by simp_all
    from c3 [OF sg] len have b: "launchButton s = Some False" by auto
    then have st: "step LaunchClick s = handleLaunchButtonClick s" using up by (simp add: step_def)
    show ?thesis
      unfolding st handleLaunchButtonClick_nf [OF len] using b len
      by (simp add: selecting_def)
  qed
  from c1 c2 c3 c4 c5 c6 c7 show ?thesis by blast
qed

theorem submit_enabled_iff_full_while_selecting_witness:
  "''/'' \<noteq> ''/wordcloud'' \<and>
   selecting (run [GridClick btn_food, GridClick btn_music, GridClick btn_book] (init None ''/'')) \<and>
   ImageLoad True \<notin> set [GridClick btn_food, GridClick btn_music, GridClick btn_book] \<and>
   length (selectedItems
     (run [GridClick btn_food, GridClick btn_music, GridClick btn_book] (init None ''/''))) = 3 \<and>
   card (key ` set (selectedItems
     (run [GridClick btn_food, GridClick btn_music, GridClick btn_book] (init None ''/'')))) = 3 \<and>
   launchButton
     (run [GridClick btn_food, GridClick btn_music, GridClick btn_book] (init None ''/'')) =
     Some False \<and>
   launchButton (step LaunchClick
     (run [GridClick btn_food, GridClick btn_music, GridClick btn_book] (init None ''/''))) =
     Some True \<and>
   \<not> selecting (run sample_show (init None ''/'')) \<and>
   launchButton (run sample_show (init None ''/'')) = Some True \<and>
   length (selectedItems (run sample_show (init None ''/''))) = 3 \<and>
   selecting (run sample_failed (init None ''/'')) \<and>
   selectedItems (run sample_failed (init None ''/'')) \<noteq> [] \<and>
   length (selectedItems (run sample_failed (init None ''/''))) = 3 \<and>
   launchButton (run sample_failed (init None ''/'')) = Some False \<and>
   0 \<in> rocketIndex ` set (selectedItems (run sample_failed (init None ''/''))) \<and>
   length (selectedItems (step (RocketClick 0) (run sample_failed (init None ''/'')))) = 2 \<and>
   launchButton (step (RocketClick 0) (run sample_failed (init None ''/''))) \<noteq> Some False \<and>
   selecting (run sample_returned (init None ''/'')) \<and>
   length (selectedItems (step (GridClick btn_phone) (run sample_returned (init None ''/'')))) = 1 \<and>
   launchButton (step (GridClick btn_phone) (run sample_returned (init None ''/''))) \<noteq> Some False"
proof -
  let ?evs = "[GridClick btn_food, GridClick btn_music, GridClick btn_book]"
  let ?s = "run ?evs (init None ''/'')"
  let ?f = "run sample_failed (init None ''/'')"
  let ?r = "run sample_returned (init None ''/'')"
  have p: "''/'' \<noteq> ''/wordcloud''" by simp
  have n: "ImageLoad True \<notin> set ?evs" by simp
  have s1: "selecting ?s" "length (selectedItems ?s) = 3"
    unfolding run_sample_picked by (simp_all add: selecting_def sample_page_def sample_picked_def)
  have s2: "\<not> selecting (run sample_show (init None ''/''))"
    unfolding run_sample_shown by (simp add: selecting_def sample_shown_def)
  have s3: "selecting ?f" "selectedItems ?f \<noteq> []" "length (selectedItems ?f) = 3"
    "0 \<in> rocketIndex ` set (selectedItems ?f)"
    unfolding run_sample_failed
    by (simp_all add: selecting_def sample_launched_def sample_page_def sample_picked_def)
  have s4: "length (selectedItems (step (RocketClick 0) ?f)) = 2"
    unfolding run_sample_failed
    by (simp add: sample_launched_def sample_page_def sample_picked_def step_def
        receivesClick_def handleRocketBlockClick_def findIndex.simps splice_def Let_def
        updateGridStates_def updateLaunchButtonState_def)
  have s5: "selecting ?r"
    unfolding run_sample_returned
    by (simp add: selecting_def sample_shown_def sample_launched_def sample_page_def)
  have s6: "length (selectedItems (step (GridClick btn_phone) ?r)) = 1"
    unfolding run_sample_returned
    by (simp add: sample_shown_def sample_launched_def sample_page_def step_def
        receivesClick_def handleGridItemClick_def Let_def nextRocketIndex_eval
        updateGridStates_def updateLaunchButtonState_def)
  note a = submit_enabled_iff_full_while_selecting [OF refl p, of ?evs None]
  note b = submit_enabled_iff_full_while_selecting [OF refl p, of sample_show None]
  note c = submit_enabled_iff_full_while_selecting [OF refl p, of sample_failed None _ 0]
  note d = submit_enabled_iff_full_while_selecting [OF refl p, of sample_returned None btn_phone]
  have a1: "card (key ` set (selectedItems ?s)) = 3" "launchButton ?s = Some False"
    "launchButton (step LaunchClick ?s) = Some True"
    using a s1 n by simp_all
  have b1: "launchButton (run sample_show (init None ''/'')) = Some True"
    "length (selectedItems (run sample_show (init None ''/''))) = 3"
    using b s2 by simp_all
  have c1: "launchButton ?f = Some False" using c s3 by auto
  have c2: "launchButton (step (RocketClick 0) ?f) \<noteq> Some False" using c s3 s4 by simp
  have d1: "launchButton (step (GridClick btn_phone) ?r) \<noteq> Some False" using d s5 s6 by simp
  from p n s1 s2 s3 s4 s5 s6 a1 b1 c1 c2 d1 show ?thesis by blast
qed

text \<open>
  C5 as stated fails on the sample page: right after the click on the launch button
  three entries are selected and the launch button is disabled.
\<close>

theorem submit_enabled_iff_full_counterexample:
  "\<not> ((launchButton
         (run [GridClick btn_food, GridClick btn_music, GridClick btn_book, LaunchClick]
            (init None ''/'')) = Some False) =
       (length (selectedItems
         (run [GridClick btn_food, GridClick btn_music, GridClick btn_book, LaunchClick]
            (init None ''/''))) = 3))"
  unfolding run_sample_launched
  by (simp add: sample_launched_def sample_page_def sample_picked_def)

text \<open>
  C6. In any reachable state that shows the word cloud, the auto-return timer is pending.
  When it fires, the state is the one a click on the back button gives. In that state
  the word cloud is no longer shown, no auto-return timer is pending (firing the old
  handle does nothing) and the fade callback is pending; once that callback has run, the
  selection is empty, the selection view is shown, no launch is in flight and the grid
  and rocket buttons are enabled.
\<close>

theorem return_from_result:
  assumes "s = run evs (init stored path)" and "isWordcloudVisible s"
    and "m = step BackClick s" and "f = step (TimerFire (nextTimer s)) m"
  shows "\<exists>t. wordcloudReturnTimer s = Some t \<and> map_of (timers s) t = Some AutoReturn \<and>
           step (TimerFire t) s = m \<and>
           \<not> isWordcloudVisible m \<and> wordcloudReturnTimer m = None \<and>
           AutoReturn \<notin> snd ` set (timers m) \<and> step (TimerFire t) m = m \<and>
           map_of (timers m) (nextTimer s) = Some FadeOutDone \<and>
           selectedItems f = [] \<and> \<not> isWordcloudVisible f \<and> launch f = NotRunning \<and>
           \<not> gridDisabled f \<and> \<not> rocketDisabled f \<and> \<not> selectionHidden f \<and>
           wordcloudHidden f \<and> AutoReturn \<notin> snd ` set (timers f)"
proof -
  have inv: "ctl_inv s" unfolding assms(1) by (rule ctl_inv_reachable)
  note sh = shown [OF inv assms(2)]
  from sh(5) obtain t where t: "wordcloudReturnTimer s = Some t"
    "control_timers s = [(t, AutoReturn)]" by blast
  have fr: "timers_fresh s" using inv by (simp add: ctl_inv_def)
  have mem: "(t, AutoReturn) \<in> set (timers s)"
  proof -
    have "(t, AutoReturn) \<in> set (control_timers s)" unfolding t(2) by simp
    then show ?thesis by (simp add: control_timers_def)
  qed
  have pend: "map_of (timers s) t = Some AutoReturn" by (rule pending_timer [OF fr mem])
  have m: "m = returnToSelection s"
    unfolding assms(3) using sh(3,4) by (simp add: step_def)
  have auto: "step (TimerFire t) s = m"
    unfolding m using sh(4) pend returnToSelection_clearTimeout [OF assms(2) t(1)]
    by (simp add: step_def timerFired_def)
  note nf = returnToSelection_nf [OF assms(2) t(1)]
  have invm: "ctl_inv m" unfolding m using inv by (rule ctl_inv_returnToSelection)
  have frm: "timers_fresh m" using invm by (simp add: ctl_inv_def)
  have cm: "control_timers m = [(nextTimer s, FadeOutDone)]"
    unfolding m by (rule returnToSelection_control [OF assms(2) t])
  have vm: "\<not> isWordcloudVisible m" "wordcloudReturnTimer m = None" "\<not> unloaded m"
    "launch m = NotRunning"
    unfolding m nf using sh(1,4) by (simp_all add: setTimeout_def clearTimeout_def)
  have noauto: "AutoReturn \<notin> snd ` set (timers m)"
  proof
    assume "AutoReturn \<in> snd ` set (timers m)"
    then obtain i where "(i, AutoReturn) \<in> set (timers m)" by auto
    then have "(i, AutoReturn) \<in> set (control_timers m)" by (rule control_member) simp
    then show False unfolding cm by simp
  qed
  have late: "step (TimerFire t) m = m"
  proof (cases "map_of (timers m) t")
    case None
    then show ?thesis by (simp add: step_def timerFired_def)
  next
    case (Some a)
    have tm: "timers m = filter (\<lambda>(i, a). i \<noteq> t) (timers s) @ [(nextTimer s, FadeOutDone)]"
      unfolding m nf by (simp add: setTimeout_def clearTimeout_def)
    have "t < nextTimer s"
      using fr mem by (auto simp: timers_fresh_def list_all_iff)
    then have "t \<notin> fst ` set (timers m)" unfolding tm by auto
    then have "map_of (timers m) t = None" by (simp add: map_of_eq_None_iff)
    with Some show ?thesis by simp
  qed
  have fmem: "(nextTimer s, FadeOutDone) \<in> set (timers m)"
  proof -
    have "(nextTimer s, FadeOutDone) \<in> set (control_timers m)" unfolding cm by simp
    then show ?thesis by (simp add: control_timers_def)
  qed
  have fpend: "map_of (timers m) (nextTimer s) = Some FadeOutDone"
    by (rule pending_timer [OF frm fmem])
  have f: "f = returnToSelection_faded (clearTimeout (nextTimer s) m)"
    unfolding assms(4) using vm(3) fpend by (simp add: step_def timerFired_def)
  have ff: "selectedItems f = []" "\<not> isWordcloudVisible f" "launch f = NotRunning"
    "\<not> gridDisabled f" "\<not> rocketDisabled f" "\<not> selectionHidden f" "wordcloudHidden f"
    unfolding f returnToSelection_faded_nf using vm by (simp_all add: clearTimeout_def)
  have tf: "timers f = filter (\<lambda>(i, a). i \<noteq> nextTimer s) (timers m)"
    unfolding f returnToSelection_faded_nf by (simp add: clearTimeout_def)
  have noauto_f: "AutoReturn \<notin> snd ` set (timers f)"
    using noauto unfolding tf by auto
  from t(1) pend auto vm(1,2) noauto late fpend ff noauto_f show ?thesis by blast
qed

theorem return_from_result_witness:
  "isWordcloudVisible (run sample_show (init None ''/'')) \<and>
   wordcloudReturnTimer (run sample_show (init None ''/'')) = Some 2 \<and>
   step (TimerFire 2) (run sample_show (init None ''/'')) =
     step BackClick (run sample_show (init None ''/'')) \<and>
   step (TimerFire 2) (step BackClick (run sample_show (init None ''/''))) =
     step BackClick (run sample_show (init None ''/'')) \<and>
   selectedItems (step (TimerFire 3) (step BackClick (run sample_show (init None ''/'')))) = [] \<and>
   \<not> gridDisabled (step (TimerFire 3) (step BackClick (run sample_show (init None ''/''))))"
proof -
  let ?s = "run sample_show (init None ''/'')"
  have v: "isWordcloudVisible ?s" and w: "wordcloudReturnTimer ?s = Some 2"
    and n: "nextTimer ?s = 3"
    unfolding run_sample_shown by (simp_all add: sample_shown_def)
  from return_from_result [OF refl v refl refl] v w n show ?thesis by auto
qed


text \<open>
  C7. In any reachable state in which a launch is in flight (from the click on the launch
  button until the word cloud is shown or the launch has failed), a click on the launch
  button leaves the whole state as it is: nothing changes and no request is issued.
\<close>

theorem submit_while_transitioning_noop:
  assumes "s = run evs (init stored path)" and "launch s \<noteq> NotRunning"
  shows "step LaunchClick s = s"
proof -
  have "ctl_inv s" unfolding assms(1) by (rule ctl_inv_reachable)
  from transitioning(2) [OF this assms(2)] have "launchButton s = Some True"
    by (simp add: locked_def)
  then show ?thesis by (simp add: step_def)
qed

theorem submit_while_transitioning_noop_witness:
  "launch (run [GridClick btn_food, GridClick btn_music, GridClick btn_book, LaunchClick]
             (init None ''/'')) \<noteq> NotRunning \<and>
   step LaunchClick (run [GridClick btn_food, GridClick btn_music, GridClick btn_book, LaunchClick]
             (init None ''/'')) =
     run [GridClick btn_food, GridClick btn_music, GridClick btn_book, LaunchClick]
             (init None ''/'') \<and>
   map snd (requests (step LaunchClick
      (run [GridClick btn_food, GridClick btn_music, GridClick btn_book, LaunchClick]
             (init None ''/'')))) =
     [GetTranslations ''en'', CommitWordcloud,
      PreviewWordcloud [''food'', ''music'', ''book''] ''en'']"
proof -
  let ?s = "run [GridClick btn_food, GridClick btn_music, GridClick btn_book, LaunchClick]
             (init None ''/'')"
  have l: "launch ?s \<noteq> NotRunning"
    unfolding run_sample_launched by (simp add: sample_launched_def)
  note n = submit_while_transitioning_noop [OF refl l]
  have "map snd (requests ?s) =
     [GetTranslations ''en'', CommitWordcloud,
      PreviewWordcloud [''food'', ''music'', ''book''] ''en'']"
    unfolding run_sample_launched by (simp add: sample_launched_def sample_page_def)
  with l n show ?thesis by simp
qed


text \<open>
  C8. In any reachable state, a click on the grid button of a selected key removes the
  entry of that key and no other, and its slot becomes unused. If that slot is then the
  least unused one, the next click on a button whose key is not selected appends an entry
  with exactly that slot.
\<close>

theorem deselect_frees_slot:
  assumes "s = run evs (init stored path)"
    and "it \<in> set (selectedItems s)" and "dataset_key b = key it"
    and "s' = handleGridItemClick b s"
  shows "selectedItems s' = filter (\<lambda>x. key x \<noteq> key it) (selectedItems s) \<and>
         it \<notin> set (selectedItems s') \<and>
         rocketIndex it \<notin> rocketIndex ` set (selectedItems s') \<and>
         (dataset_key b' \<notin> key ` set (selectedItems s') \<and>
          (\<forall>j<rocketIndex it. j \<in> rocketIndex ` set (selectedItems s')) \<longrightarrow>
            selectedItems (handleGridItemClick b' s') =
              selectedItems s' @
                [\<lparr>gridButton = b', rocketIndex = rocketIndex it, key = dataset_key b'\<rparr>])"
proof -
  let ?sel = "selectedItems s"
  let ?sel' = "selectedItems s'"
  have inv: "sel_inv ?sel" unfolding assms(1) by (rule sel_inv_reachable)
  then have dk: "distinct (map key ?sel)" and dr: "distinct (map rocketIndex ?sel)"
    by (simp_all add: sel_inv_def)
  have k: "dataset_key b \<in> key ` set ?sel" using assms(2,3) by auto
  have rem: "?sel' = filter (\<lambda>x. key x \<noteq> key it) ?sel"
    unfolding assms(4) handleGridItemClick_present [OF k]
    using remove_found_filter [OF k dk] assms(3) by simp
  have gone: "it \<notin> set ?sel'" unfolding rem by simp
  have inv': "sel_inv ?sel'" unfolding rem using inv by (rule sel_inv_filter)
  have free: "rocketIndex it \<notin> rocketIndex ` set ?sel'"
  proof
    assume "rocketIndex it \<in> rocketIndex ` set ?sel'"
    then obtain x where x: "x \<in> set ?sel'" "rocketIndex x = rocketIndex it" by auto
    then have xs: "x \<in> set ?sel" and xk: "key x \<noteq> key it" unfolding rem by simp_all
    have "inj_on rocketIndex (set ?sel)" using dr by (simp add: distinct_map)
    with xs assms(2) x(2) have "x = it" by (auto dest: inj_onD)
    with xk show False by simp
  qed
  have len: "length ?sel' < 3"
  proof -
    have "length ?sel' < length ?sel"
      unfolding rem using assms(2) by (intro length_filter_less [of it]) simp_all
    moreover have "length ?sel \<le> 3" using inv by (rule sel_inv_length)
    ultimately show ?thesis by simp
  qed
  have next_click: "selectedItems (handleGridItemClick b' s') =
      ?sel' @ [\<lparr>gridButton = b', rocketIndex = rocketIndex it, key = dataset_key b'\<rparr>]"
    if new: "dataset_key b' \<notin> key ` set ?sel'"
      and least: "\<forall>j<rocketIndex it. j \<in> rocketIndex ` set ?sel'"
  proof -
    let ?u = "map rocketIndex ?sel'"
    have d: "distinct ?u" and b3: "\<forall>x\<in>set ?u. x < 3"
      using inv' by (auto simp: sel_inv_def list_all_iff)
    have l: "length ?u < 3" using len by simp
    have it3: "rocketIndex it < 3"
      using inv assms(2) by (auto simp: sel_inv_def list_all_iff)
    have "nextRocketIndex ?u 0 = rocketIndex it"
      using free least by (intro nextRocketIndex_least [OF d b3 l]) simp_all
    then show ?thesis
      using len it3 by (simp add: handleGridItemClick_absent [OF new])
  qed
  from rem gone free next_click show ?thesis by blast
qed

theorem deselect_frees_slot_witness:
  "\<lparr>gridButton = btn_food, rocketIndex = 0, key = ''food''\<rparr>
     \<in> set (selectedItems (run [GridClick btn_food, GridClick btn_music, GridClick btn_book]
                               (init None ''/''))) \<and>
   selectedItems (handleGridItemClick btn_food
      (run [GridClick btn_food, GridClick btn_music, GridClick btn_book] (init None ''/''))) =
     [\<lparr>gridButton = btn_music, rocketIndex = 1, key = ''music''\<rparr>,
      \<lparr>gridButton = btn_book, rocketIndex = 2, key = ''book''\<rparr>] \<and>
   selectedItems (handleGridItemClick btn_phone (handleGridItemClick btn_food
      (run [GridClick btn_food, GridClick btn_music, GridClick btn_book] (init None ''/'')))) =
     [\<lparr>gridButton = btn_music, rocketIndex = 1, key = ''music''\<rparr>,
      \<lparr>gridButton = btn_book, rocketIndex = 2, key = ''book''\<rparr>,
      \<lparr>gridButton = btn_phone, rocketIndex = 0, key = ''phone''\<rparr>]"
proof -
  let ?s = "run [GridClick btn_food, GridClick btn_music, GridClick btn_book] (init None ''/'')"
  let ?it = "\<lparr>gridButton = btn_food, rocketIndex = 0, key = ''food''\<rparr>"
  let ?s' = "handleGridItemClick btn_food ?s"
  have sel: "selectedItems ?s = sample_picked"
    unfolding run_sample_picked by (simp add: sample_page_def)
  have m: "?it \<in> set (selectedItems ?s)" unfolding sel by (simp add: sample_picked_def)
  have k: "dataset_key btn_food = key ?it" by (simp add: btn_food_def)
  note t = deselect_frees_slot [OF refl m k refl, of btn_phone]
  from t have rem: "selectedItems ?s' =
      [\<lparr>gridButton = btn_music, rocketIndex = 1, key = ''music''\<rparr>,
       \<lparr>gridButton = btn_book, rocketIndex = 2, key = ''book''\<rparr>]"
    unfolding sel by (simp add: sample_picked_def)
  have new: "dataset_key btn_phone \<notin> key ` set (selectedItems ?s')"
    unfolding rem by (simp add: btn_phone_def)
  have least: "\<forall>j<rocketIndex ?it. j \<in> rocketIndex ` set (selectedItems ?s')" by simp
  from t new least have "selectedItems (handleGridItemClick btn_phone ?s') =
      selectedItems ?s' @
        [\<lparr>gridButton = btn_phone, rocketIndex = rocketIndex ?it, key = dataset_key btn_phone\<rparr>]"
    by blast
  then have add: "selectedItems (handleGridItemClick btn_phone ?s') =
     [\<lparr>gridButton = btn_music, rocketIndex = 1, key = ''music''\<rparr>,
      \<lparr>gridButton = btn_book, rocketIndex = 2, key = ''book''\<rparr>,
      \<lparr>gridButton = btn_phone, rocketIndex = 0, key = ''phone''\<rparr>]"
    unfolding rem by (simp add: btn_phone_def)
  from m rem add show ?thesis by blast
qed


text \<open>
  C9, as amended. For every state and every language, \<open>setLanguage\<close> and its
  continuation after the translations have loaded leave the selection, the launch in
  flight, the visibility of the word cloud and of the two views as they are, and issue
  no request other than the one for the translations of the language. On the page at
  \<open>/wordcloud\<close> the image is pointed at the asset of the language: at once when the
  translations are cached, otherwise when they have loaded.
\<close>

theorem setLanguage_keeps_selection_and_view:
  "selectedItems (setLanguage lang s) = selectedItems s \<and>
   launch (setLanguage lang s) = launch s \<and>
   isWordcloudVisible (setLanguage lang s) = isWordcloudVisible s \<and>
   selectionHidden (setLanguage lang s) = selectionHidden s \<and>
   wordcloudHidden (setLanguage lang s) = wordcloudHidden s \<and>
   (requests (setLanguage lang s) = requests s \<or>
    requests (setLanguage lang s) = requests s @ [(nextRequest s, GetTranslations lang)]) \<and>
   selectedItems (translationsSettled rid out s) = selectedItems s \<and>
   launch (translationsSettled rid out s) = launch s \<and>
   isWordcloudVisible (translationsSettled rid out s) = isWordcloudVisible s \<and>
   selectionHidden (translationsSettled rid out s) = selectionHidden s \<and>
   wordcloudHidden (translationsSettled rid out s) = wordcloudHidden s \<and>
   requests (translationsSettled rid out s) = requests s \<and>
   (isWordcloudPage s \<and> lang \<in> set (translationsCache s) \<longrightarrow>
      wordcloudImageSrc (setLanguage lang s) = Some (getWordcloudImagePath lang)) \<and>
   (isWordcloudPage s \<and> lang \<notin> set (translationsCache s) \<longrightarrow>
      wordcloudImageSrc (translationsSettled (nextRequest s) Ok (setLanguage lang s)) =
        Some (getWordcloudImagePath lang))"
proof -
  have cached: "wordcloudImageSrc (setLanguage lang s) = Some (getWordcloudImagePath lang)"
    if "isWordcloudPage s \<and> lang \<in> set (translationsCache s)"
    using that by (simp add: setLanguage_def Let_def setLanguage_loaded_image isWordcloudPage_def)
  have loaded: "wordcloudImageSrc (translationsSettled (nextRequest s) Ok (setLanguage lang s)) =
      Some (getWordcloudImagePath lang)"
    if h: "isWordcloudPage s \<and> lang \<notin> set (translationsCache s)"
  proof -
    let ?s1 = "setLanguage lang s"
    have aw: "awaitingTranslations ?s1 = awaitingTranslations s @ [(nextRequest s, lang)]"
      using h by (simp add: setLanguage_def Let_def fetch_def)
    have "map snd (filter (\<lambda>(i, l). i = nextRequest s) (awaitingTranslations ?s1)) =
        map snd (filter (\<lambda>(i, l). i = nextRequest s) (awaitingTranslations s)) @ [lang]"
      unfolding aw by simp
    moreover have "isWordcloudPage (?s1\<lparr>awaitingTranslations :=
        filter (\<lambda>(i, l). i \<noteq> nextRequest s) (awaitingTranslations ?s1)\<rparr>)"
      using h by (simp add: isWordcloudPage_def setLanguage_frame)
    ultimately show ?thesis
      by (simp only: translationsSettled_def resumeLanguage_image)
  qed
  from cached loaded requests_setLanguage [of lang s] show ?thesis
    by (simp add: setLanguage_frame translationsSettled_frame)
qed

theorem setLanguage_keeps_selection_and_view_witness:
  "isWordcloudPage (init None ''/wordcloud'') \<and>
   ''he'' \<notin> set (translationsCache (init None ''/wordcloud'')) \<and>
   wordcloudImageSrc
     (translationsSettled (nextRequest (init None ''/wordcloud'')) Ok
        (setLanguage ''he'' (init None ''/wordcloud''))) =
     Some ''/static/wordcloud/wordcloud_he.png'' \<and>
   isWordcloudPage ((init None ''/wordcloud'')\<lparr>translationsCache := [''he'']\<rparr>) \<and>
   ''he'' \<in> set (translationsCache ((init None ''/wordcloud'')\<lparr>translationsCache := [''he'']\<rparr>)) \<and>
   wordcloudImageSrc
     (setLanguage ''he'' ((init None ''/wordcloud'')\<lparr>translationsCache := [''he'']\<rparr>)) =
     Some ''/static/wordcloud/wordcloud_he.png'' \<and>
   selectedItems (setLanguage ''he'' sample_shown) = selectedItems sample_shown \<and>
   isWordcloudVisible (setLanguage ''he'' sample_shown)"
proof -
  let ?w = "init None ''/wordcloud''"
  let ?c = "?w\<lparr>translationsCache := [''he'']\<rparr>"
  have p: "isWordcloudPage ?w" and n: "''he'' \<notin> set (translationsCache ?w)"
    by (simp_all add: isWordcloudPage_def init_view)
  have pc: "isWordcloudPage ?c" and c: "''he'' \<in> set (translationsCache ?c)"
    by (simp_all add: isWordcloudPage_def init_view)
  have path: "getWordcloudImagePath ''he'' = ''/static/wordcloud/wordcloud_he.png''"
    by (simp add: getWordcloudImagePath_def)
  have v: "isWordcloudVisible sample_shown" by (simp add: sample_shown_def)
  from setLanguage_keeps_selection_and_view [of "''he''" ?w] p n
  have a: "wordcloudImageSrc (translationsSettled (nextRequest ?w) Ok (setLanguage ''he'' ?w)) =
      Some ''/static/wordcloud/wordcloud_he.png''"
    unfolding path by blast
  from setLanguage_keeps_selection_and_view [of "''he''" ?c] pc c
  have b: "wordcloudImageSrc (setLanguage ''he'' ?c) = Some ''/static/wordcloud/wordcloud_he.png''"
    unfolding path by blast
  from setLanguage_keeps_selection_and_view [of "''he''" sample_shown] v
  have d: "selectedItems (setLanguage ''he'' sample_shown) = selectedItems sample_shown"
    "isWordcloudVisible (setLanguage ''he'' sample_shown)" by simp_all
  from p n a pc c b d show ?thesis by blast
qed

text \<open>
  C9 as stated fails on the sample page: with the word cloud shown in place, a switch to
  Hebrew, translations loaded, leaves the image at the asset it had.
\<close>

theorem setLanguage_repoints_result_counterexample:
  "isWordcloudVisible (run [LangClick ''he'', Response 5 Ok] (run sample_show (init None ''/''))) \<and>
   currentLanguage (run [LangClick ''he'', Response 5 Ok] (run sample_show (init None ''/''))) =
     ''he'' \<and>
   currentTranslations (run [LangClick ''he'', Response 5 Ok] (run sample_show (init None ''/''))) =
     Some ''he'' \<and>
   wordcloudImageSrc (run [LangClick ''he'', Response 5 Ok] (run sample_show (init None ''/''))) \<noteq>
     Some (getWordcloudImagePath ''he'')"
  unfolding run_sample_shown
  by (simp add: sample_shown_def sample_launched_def sample_page_def launch_defs
      setLanguage_def setLanguage_loaded_def updateWordcloudImage_def)


text \<open>
  C10. Removing an entry, by a click on the grid button of a selected key or on an
  occupied rocket block, deletes one position of \<open>selectedItems\<close>: the entries before and
  after it stay as they are, in their order, each with its key and its slot.
\<close>

theorem removal_keeps_other_entries:
  "(dataset_key b \<in> key ` set (selectedItems s) \<longrightarrow>
      (\<exists>i. i < length (selectedItems s) \<and> key (selectedItems s ! i) = dataset_key b \<and>
           selectedItems (handleGridItemClick b s) =
             take i (selectedItems s) @ drop (Suc i) (selectedItems s))) \<and>
   (ri \<in> rocketIndex ` set (selectedItems s) \<longrightarrow>
      (\<exists>i. i < length (selectedItems s) \<and> rocketIndex (selectedItems s ! i) = ri \<and>
           selectedItems (handleRocketBlockClick ri s) =
             take i (selectedItems s) @ drop (Suc i) (selectedItems s)))"
proof (intro conjI impI)
  assume k: "dataset_key b \<in> key ` set (selectedItems s)"
  let ?i = "nat (findIndex (\<lambda>it. key it = dataset_key b) (selectedItems s))"
  note r = remove_found [OF k]
  have "selectedItems (handleGridItemClick b s) =
          take ?i (selectedItems s) @ drop (Suc ?i) (selectedItems s)"
    using handleGridItemClick_present [OF k] r(4) by simp
  with r(2,3) show "\<exists>i. i < length (selectedItems s) \<and>
      key (selectedItems s ! i) = dataset_key b \<and>
      selectedItems (handleGridItemClick b s) =
        take i (selectedItems s) @ drop (Suc i) (selectedItems s)" by blast
next
  assume k: "ri \<in> rocketIndex ` set (selectedItems s)"
  let ?i = "nat (findIndex (\<lambda>it. rocketIndex it = ri) (selectedItems s))"
  note r = remove_found [OF k]
  have "selectedItems (handleRocketBlockClick ri s) =
          take ?i (selectedItems s) @ drop (Suc ?i) (selectedItems s)"
    using handleRocketBlockClick_present [OF k] r(4) by simp
  with r(2,3) show "\<exists>i. i < length (selectedItems s) \<and>
      rocketIndex (selectedItems s ! i) = ri \<and>
      selectedItems (handleRocketBlockClick ri s) =
        take i (selectedItems s) @ drop (Suc i) (selectedItems s)" by blast
qed

theorem removal_keeps_other_entries_witness:
  "dataset_key btn_music \<in> key ` set (selectedItems (sample_page sample_picked False)) \<and>
   selectedItems (handleGridItemClick btn_music (sample_page sample_picked False)) =
     [\<lparr>gridButton = btn_food, rocketIndex = 0, key = ''food''\<rparr>,
      \<lparr>gridButton = btn_book, rocketIndex = 2, key = ''book''\<rparr>] \<and>
   0 \<in> rocketIndex ` set (selectedItems (sample_page sample_picked False)) \<and>
   selectedItems (handleRocketBlockClick 0 (sample_page sample_picked False)) =
     [\<lparr>gridButton = btn_music, rocketIndex = 1, key = ''music''\<rparr>,
      \<lparr>gridButton = btn_book, rocketIndex = 2, key = ''book''\<rparr>]"
proof -
  let ?s = "sample_page sample_picked False"
  have sel: "selectedItems ?s = sample_picked" by (simp add: sample_page_def)
  have k: "dataset_key btn_music \<in> key ` set (selectedItems ?s)"
    and r: "0 \<in> rocketIndex ` set (selectedItems ?s)"
    unfolding sel by (simp_all add: sample_picked_def btn_music_def)
  from removal_keeps_other_entries [of btn_music ?s 0] k r
  obtain i j where i: "i < length sample_picked" "key (sample_picked ! i) = dataset_key btn_music"
      "selectedItems (handleGridItemClick btn_music ?s) =
         take i sample_picked @ drop (Suc i) sample_picked"
    and j: "j < length sample_picked" "rocketIndex (sample_picked ! j) = 0"
      "selectedItems (handleRocketBlockClick 0 ?s) =
         take j sample_picked @ drop (Suc j) sample_picked"
    unfolding sel by blast
  have "i = 1"
    using i(1,2) by (auto simp: sample_picked_def btn_music_def less_Suc_eq numeral_3_eq_3)
  moreover have "j = 0"
    using j(1,2) by (auto simp: sample_picked_def less_Suc_eq numeral_3_eq_3)
  ultimately show ?thesis
    using i(3) j(3) k r by (simp add: sample_picked_def)
qed


end
